theory Spec2Isabelle
  imports Main "HOL-Library.AList"
begin

section \<open>Personal notes (src/text.ts)\<close>

text \<open>
  A JavaScript string is a sequence of UTF-16 code units; a code unit is modelled as a
  natural number. \<open>js\<close> writes an ASCII literal as such a sequence.
\<close>

type_synonym js_string = "nat list"

definition js :: "string \<Rightarrow> js_string" where
  "js s = map of_char s"

text \<open>
  \<^verbatim>\<open>String.prototype.trim\<close> removes WhiteSpace and LineTerminator code points from both
  ends: TAB, LF, VT, FF, CR, SP, NBSP, U+1680, U+2000..U+200A, U+2028, U+2029, U+202F,
  U+205F, U+3000 and U+FEFF.
\<close>

definition is_js_whitespace :: "nat \<Rightarrow> bool" where
  "is_js_whitespace c =
     (c \<in> set [9, 10, 11, 12, 13, 32, 160, 5760, 8232, 8233, 8239, 8287, 12288, 65279]
      \<or> (8192 \<le> c \<and> c \<le> 8202))"

definition trim :: "js_string \<Rightarrow> js_string" where
  "trim s = rev (dropWhile is_js_whitespace (rev (dropWhile is_js_whitespace s)))"

definition endsWith_nl :: "js_string \<Rightarrow> bool" where
  "endsWith_nl s = (s \<noteq> [] \<and> last s = 10)"

definition DEFAULT_NOTES :: js_string where
  "DEFAULT_NOTES =
     js ''Bevasarolni tejet.'' @ [10] @ js ''Megszerelni a biciklit.'' @ [10]
       @ js ''MCP szervert programozni.''"

text \<open>
  The only file the module touches is \<^verbatim>\<open>main-notes.txt\<close>. Its state is the bytes it
  holds, or \<open>None\<close> when there is no such file. \<^verbatim>\<open>readFile(_, 'utf8')\<close> decodes the
  bytes to a string and \<^verbatim>\<open>writeFile(_, _, 'utf8')\<close> encodes the string; the two
  directions of the runtime's UTF-8 codec are parameters of the model.
\<close>

type_synonym bytes = "nat list"

type_synonym notes_file = "bytes option"

record codec =
  encode :: "js_string \<Rightarrow> bytes"
  decode :: "bytes \<Rightarrow> js_string"

text \<open>
  Every call into \<^verbatim>\<open>node:fs/promises\<close> can reject. \<^verbatim>\<open>appendNote\<close> makes five such
  calls: \<^verbatim>\<open>mkdir\<close>, the read and the write of \<^verbatim>\<open>ensureNotesFile\<close>, and its own read
  and write. \<open>fs_calls\<close> says which of them the system lets succeed; a write that
  fails leaves the file in some state, given with the failure. A read of a missing file
  rejects in any case.
\<close>

datatype fs_error = ENOENT | EIO

datatype write_outcome = Written | WriteFails "bytes option"

record fs_calls =
  mkdir_ok :: bool
  ensure_read_ok :: bool
  ensure_write :: write_outcome
  read_ok :: bool
  final_write :: write_outcome

definition mkdir :: "bool \<Rightarrow> fs_error + unit" where
  "mkdir ok = (if ok then Inr () else Inl EIO)"

definition readFile :: "codec \<Rightarrow> bool \<Rightarrow> notes_file \<Rightarrow> fs_error + js_string" where
  "readFile c ok f =
     (if ok then (case f of None \<Rightarrow> Inl ENOENT | Some b \<Rightarrow> Inr (decode c b)) else Inl EIO)"

definition writeFile ::
  "codec \<Rightarrow> write_outcome \<Rightarrow> js_string \<Rightarrow> notes_file \<Rightarrow> (fs_error + unit) \<times> notes_file" where
  "writeFile c w s f =
     (case w of
        Written \<Rightarrow> (Inr (), Some (encode c s))
      | WriteFails left \<Rightarrow> (Inl EIO, left))"

text \<open>
  \<^verbatim>\<open>ensureNotesFile\<close>: a rejected \<^verbatim>\<open>mkdir\<close> propagates; a rejected read (of any kind)
  is caught and the default notes are written, and a rejection of that write
  propagates. The result is the settlement of the promise and the file afterwards.
\<close>

definition ensureNotesFile :: "codec \<Rightarrow> fs_calls \<Rightarrow> notes_file \<Rightarrow> (fs_error + unit) \<times> notes_file" where
  "ensureNotesFile c io f =
     (case mkdir (mkdir_ok io) of
        Inl e \<Rightarrow> (Inl e, f)
      | Inr _ \<Rightarrow>
          (case readFile c (ensure_read_ok io) f of
             Inr _ \<Rightarrow> (Inr (), f)
           | Inl _ \<Rightarrow> writeFile c (ensure_write io) (DEFAULT_NOTES @ [10]) f))"

definition readNotes :: "codec \<Rightarrow> fs_calls \<Rightarrow> notes_file \<Rightarrow> (fs_error + js_string) \<times> notes_file" where
  "readNotes c io f =
     (case ensureNotesFile c io f of
        (Inl e, f1) \<Rightarrow> (Inl e, f1)
      | (Inr _, f1) \<Rightarrow> (readFile c (read_ok io) f1, f1))"

text \<open>
  \<^verbatim>\<open>appendNote\<close>: the result is the settlement of the promise (\<open>Inl\<close> a rejection)
  and the file afterwards.
\<close>

definition appendNote ::
  "codec \<Rightarrow> fs_calls \<Rightarrow> js_string \<Rightarrow> notes_file \<Rightarrow> (fs_error + unit) \<times> notes_file" where
  "appendNote c io text f =
     (case ensureNotesFile c io f of
        (Inl e, f1) \<Rightarrow> (Inl e, f1)
      | (Inr _, f1) \<Rightarrow>
          (case readFile c (read_ok io) f1 of
             Inl e \<Rightarrow> (Inl e, f1)
           | Inr existing \<Rightarrow>
               (let trimmed = trim text in
                if trimmed = [] then (Inr (), f1)
                else
                  (let separator =
                         (if length existing > 0 \<and> \<not> endsWith_nl existing then [10] else [])
                   in writeFile c (final_write io) (existing @ separator @ trimmed @ [10]) f1))))"

text \<open>
  The \<^verbatim>\<open>add_note\<close> tool. \<open>add_note_callback\<close> is the registered callback;
  \<open>add_note\<close> puts the input schema \<^verbatim>\<open>z.string().min(1)\<close> in front of it, as the
  server does before it calls the callback.
\<close>

datatype tool_error = InvalidParams | ToolFailed fs_error

definition add_note_callback ::
  "codec \<Rightarrow> fs_calls \<Rightarrow> js_string \<Rightarrow> notes_file \<Rightarrow> (tool_error + js_string) \<times> notes_file" where
  "add_note_callback c io text f =
     (case appendNote c io text f of
        (Inl e, f') \<Rightarrow> (Inl (ToolFailed e), f')
      | (Inr _, f') \<Rightarrow> (Inr (js ''Jegyzet hozzaadva: '' @ [34] @ trim text @ [34]), f'))"

definition add_note ::
  "codec \<Rightarrow> fs_calls \<Rightarrow> js_string \<Rightarrow> notes_file \<Rightarrow> (tool_error + js_string) \<times> notes_file" where
  "add_note c io text f =
     (if length text < 1 then (Inl InvalidParams, f) else add_note_callback c io text f)"

subsection \<open>The UTF-8 codec, for the examples\<close>

text \<open>
  Encoding: the code units are read as code points (a high surrogate followed by a low
  one is one code point, any other surrogate becomes U+FFFD), and each code point is
  written as one to four bytes.
\<close>

definition is_surrogate :: "nat \<Rightarrow> bool" where
  "is_surrogate c = (55296 \<le> c \<and> c \<le> 57343)"

fun code_points :: "js_string \<Rightarrow> nat list" where
  "code_points [] = []"
| "code_points [c] = [if is_surrogate c then 65533 else c]"
| "code_points (c # d # cs) =
     (if 55296 \<le> c \<and> c \<le> 56319 \<and> 56320 \<le> d \<and> d \<le> 57343
      then (65536 + (c - 55296) * 1024 + (d - 56320)) # code_points cs
      else (if is_surrogate c then 65533 else c) # code_points (d # cs))"

definition utf8_bytes :: "nat \<Rightarrow> bytes" where
  "utf8_bytes cp =
     (if cp < 128 then [cp]
      else if cp < 2048 then [192 + cp div 64, 128 + cp mod 64]
      else if cp < 65536 then [224 + cp div 4096, 128 + (cp div 64) mod 64, 128 + cp mod 64]
      else [240 + cp div 262144, 128 + (cp div 4096) mod 64, 128 + (cp div 64) mod 64,
            128 + cp mod 64])"

definition utf8_encode :: "js_string \<Rightarrow> bytes" where
  "utf8_encode s = concat (map utf8_bytes (code_points s))"

text \<open>
  Decoding: \<open>lead b\<close> is what a byte does at the start of a sequence (the code points
  it gives at once, then the number of continuation bytes awaited, the bits so far and
  the range allowed for the next byte); a byte out of range ends the sequence with
  U+FFFD and is read again as a start.
\<close>

definition lead :: "nat \<Rightarrow> nat list \<times> nat \<times> nat \<times> nat \<times> nat" where
  "lead b =
     (if b < 128 then ([b], 0, 0, 128, 191)
      else if 194 \<le> b \<and> b \<le> 223 then ([], 1, b mod 32, 128, 191)
      else if 224 \<le> b \<and> b \<le> 239
        then ([], 2, b mod 16, if b = 224 then 160 else 128, if b = 237 then 159 else 191)
      else if 240 \<le> b \<and> b \<le> 244
        then ([], 3, b mod 8, if b = 240 then 144 else 128, if b = 244 then 143 else 191)
      else ([65533], 0, 0, 128, 191))"

fun utf8_points :: "nat \<Rightarrow> nat \<Rightarrow> nat \<Rightarrow> nat \<Rightarrow> bytes \<Rightarrow> nat list" where
  "utf8_points needed cp lo hi [] = (if needed = 0 then [] else [65533])"
| "utf8_points needed cp lo hi (b # bs) =
     (if needed = 0
      then (case lead b of (out, n, c, l, u) \<Rightarrow> out @ utf8_points n c l u bs)
      else if b < lo \<or> hi < b
      then (case lead b of (out, n, c, l, u) \<Rightarrow> 65533 # out @ utf8_points n c l u bs)
      else if needed = 1 then (cp * 64 + b mod 64) # utf8_points 0 0 128 191 bs
      else utf8_points (needed - 1) (cp * 64 + b mod 64) 128 191 bs)"

definition utf16_units :: "nat \<Rightarrow> js_string" where
  "utf16_units cp =
     (if cp < 65536 then [cp]
      else [55296 + (cp - 65536) div 1024, 56320 + (cp - 65536) mod 1024])"

definition utf8_decode :: "bytes \<Rightarrow> js_string" where
  "utf8_decode bs = concat (map utf16_units (utf8_points 0 0 128 191 bs))"

definition utf8 :: codec where
  "utf8 = \<lparr>encode = utf8_encode, decode = utf8_decode\<rparr>"

definition all_succeed :: fs_calls where
  "all_succeed = \<lparr>mkdir_ok = True, ensure_read_ok = True, ensure_write = Written,
                   read_ok = True, final_write = Written\<rparr>"

section \<open>Session registry and request handlers (src/index.ts)\<close>

subsection \<open>Requests, responses and the console\<close>

text \<open>
  The header values the handlers read, and the two facts about the rest of the request
  that they use: whether \<^verbatim>\<open>isInitializeRequest(req.body)\<close> holds and whether
  \<^verbatim>\<open>req.auth\<close> is set. A header is \<open>None\<close> when it is \<^verbatim>\<open>undefined\<close>.
\<close>

record request =
  mcp_session_id :: "string option"
  last_event_id :: "string option"
  is_initialize :: bool
  auth :: bool

text \<open>Truthiness of a \<^verbatim>\<open>string | undefined\<close>: the empty string is falsy.\<close>

definition truthy :: "string option \<Rightarrow> bool" where
  "truthy h = (case h of None \<Rightarrow> False | Some s \<Rightarrow> s \<noteq> [])"

text \<open>
  A response body is the JSON-RPC error object
  \<^verbatim>\<open>{jsonrpc: '2.0', error: {code, message}, id}\<close> (\<open>rpc_id = None\<close> is \<^verbatim>\<open>id: null\<close>)
  or plain text written by \<^verbatim>\<open>res.send\<close>.
\<close>

record jsonrpc_error =
  code :: int
  message :: string
  rpc_id :: "string option"

datatype body = Json jsonrpc_error | Text string

record response =
  status :: nat
  body :: body

definition bad_request :: response where
  "bad_request =
     \<lparr>status = 400,
      body = Json \<lparr>code = - 32000, message = ''Bad Request: No valid session ID provided'',
                   rpc_id = None\<rparr>\<rparr>"

definition internal_error :: response where
  "internal_error =
     \<lparr>status = 500,
      body = Json \<lparr>code = - 32603, message = ''Internal server error'', rpc_id = None\<rparr>\<rparr>"

definition invalid_session :: response where
  "invalid_session = \<lparr>status = 400, body = Text ''Invalid or missing session ID''\<rparr>"

definition termination_failed :: response where
  "termination_failed = \<lparr>status = 500, body = Text ''Error processing session termination''\<rparr>"

text \<open>One constructor for each \<^verbatim>\<open>console\<close> call of the file, with the value it interpolates.\<close>

datatype log_line =
    ReceivedRequest string
  | RequestBody
  | AuthenticatedUser
  | SessionInitializedWithID string
  | TransportClosed string
  | ErrorHandlingRequest
  | AuthenticatedSSE
  | ClientReconnecting string
  | EstablishingStream string
  | TerminationRequest string
  | ErrorHandlingTermination
  | ShuttingDown
  | ClosingTransport string
  | ErrorClosingTransport string
  | ShutdownComplete
  | PortInUse nat
  | FailedToStart
  | Listening nat
  | ProtectedResourceMetadata nat

subsection \<open>Transports and the registry\<close>

text \<open>
  What the handlers can see of a \<^verbatim>\<open>StreamableHTTPServerTransport\<close> object: its
  \<^verbatim>\<open>sessionId\<close> (undefined until the transport has initialised its session), whether
  the \<^verbatim>\<open>onclose\<close> handler has been assigned, whether \<^verbatim>\<open>server.connect\<close> has
  resolved for it, and whether it has closed.
\<close>

record transport =
  sessionId :: "string option"
  onclose_set :: bool
  connected :: bool
  closed :: bool

text \<open>
  The state of the process: the \<^verbatim>\<open>transports\<close> object, a list of its own properties in
  insertion order whose values are references to transport objects; the transport
  objects allocated so far (a reference is an index); the console; and the
  \<^verbatim>\<open>--oauth\<close> flag.
\<close>

record server =
  transports :: "(string \<times> nat) list"
  heap :: "transport list"
  console :: "log_line list"
  useOAuth :: bool

definition init_server :: "bool \<Rightarrow> server" where
  "init_server oauth = \<lparr>transports = [], heap = [], console = [], useOAuth = oauth\<rparr>"

definition say :: "log_line \<Rightarrow> server \<Rightarrow> server" where
  "say l st = st\<lparr>console := console st @ [l]\<rparr>"

text \<open>
  \<^verbatim>\<open>transports\<close> is created as \<^verbatim>\<open>{}\<close>, so a read \<^verbatim>\<open>transports[key]\<close> finds the own
  property of that name, a transport, or else the member of that name that every object
  inherits from \<^verbatim>\<open>Object.prototype\<close>; such a member is truthy and is not a transport.
\<close>

definition Object_prototype_names :: "string list" where
  "Object_prototype_names =
     [''constructor'', ''__proto__'', ''hasOwnProperty'', ''isPrototypeOf'',
      ''propertyIsEnumerable'', ''toLocaleString'', ''toString'', ''valueOf'',
      ''__defineGetter__'', ''__defineSetter__'', ''__lookupGetter__'', ''__lookupSetter__'']"

datatype property = Transport nat | Inherited

definition get_property :: "server \<Rightarrow> string \<Rightarrow> property option" where
  "get_property st key =
     (case map_of (transports st) key of
        Some h \<Rightarrow> Some (Transport h)
      | None \<Rightarrow> if key \<in> set Object_prototype_names then Some Inherited else None)"

text \<open>
  \<^verbatim>\<open>sessionId && transports[sessionId]\<close>: what the map gives for the header value, if
  the header is truthy and the read finds something.
\<close>

definition session_transport :: "server \<Rightarrow> string option \<Rightarrow> property option" where
  "session_transport st h =
     (case h of
        None \<Rightarrow> None
      | Some s \<Rightarrow> if s = [] then None else get_property st s)"

text \<open>
  What a handler has done when it returns, reaches an \<^verbatim>\<open>await\<close> or throws: it has
  written a response; it has called \<^verbatim>\<open>handleRequest\<close> on a transport; it has called
  \<^verbatim>\<open>server.connect\<close> for a new transport; or it has thrown a \<^verbatim>\<open>TypeError\<close>, because
  the value it took from the map is not a transport and has no \<^verbatim>\<open>handleRequest\<close>.
\<close>

datatype handled =
    Responded response
  | HandleRequest nat
  | Connect nat
  | Threw

text \<open>The transport object as \<^verbatim>\<open>mcpPostHandler\<close> leaves it before \<^verbatim>\<open>server.connect\<close>.\<close>

definition new_transport :: transport where
  "new_transport = \<lparr>sessionId = None, onclose_set = True, connected = False, closed = False\<rparr>"

text \<open>
  The \<^verbatim>\<open>try\<close> block of \<^verbatim>\<open>mcpPostHandler\<close>, up to its first \<^verbatim>\<open>await\<close>: an existing
  transport is asked to handle the request (\<open>HandleRequest\<close>), or a new transport is
  made and connected (\<open>Connect\<close>), or the request is answered with 400; if the map
  gave an inherited member, the call of \<^verbatim>\<open>handleRequest\<close> throws and the \<^verbatim>\<open>catch\<close>
  block below runs next.
\<close>

definition mcpPostHandler :: "request \<Rightarrow> server \<Rightarrow> handled \<times> server" where
  "mcpPostHandler req st =
     (let st1 = (case mcp_session_id req of
                   None \<Rightarrow> say RequestBody st
                 | Some s \<Rightarrow> if s \<noteq> [] then say (ReceivedRequest s) st else say RequestBody st);
          st2 = (if useOAuth st1 \<and> auth req then say AuthenticatedUser st1 else st1)
      in case session_transport st2 (mcp_session_id req) of
           Some (Transport h) \<Rightarrow> (HandleRequest h, st2)
         | Some Inherited \<Rightarrow> (Threw, st2)
         | None \<Rightarrow>
             if \<not> truthy (mcp_session_id req) \<and> is_initialize req
             then (Connect (length (heap st2)), st2\<lparr>heap := heap st2 @ [new_transport]\<rparr>)
             else (Responded bad_request, st2))"

text \<open>
  After \<^verbatim>\<open>await server.connect(transport)\<close> the handler calls
  \<^verbatim>\<open>transport.handleRequest\<close> on the new transport.
\<close>

definition mcpPostHandler_connected :: "nat \<Rightarrow> server \<Rightarrow> handled \<times> server" where
  "mcpPostHandler_connected h st =
     (if h < length (heap st) \<and> \<not> connected (heap st ! h)
      then (HandleRequest h, st\<lparr>heap := (heap st)[h := (heap st ! h)\<lparr>connected := True\<rparr>]\<rparr>)
      else (HandleRequest h, st))"

text \<open>
  The \<^verbatim>\<open>catch\<close> block of \<^verbatim>\<open>mcpPostHandler\<close>, entered when an awaited call rejects
  or the block has thrown; \<open>headersSent\<close> is \<^verbatim>\<open>res.headersSent\<close> at that moment.
  The result is the response the block writes, if it writes one.
\<close>

definition mcpPostHandler_catch :: "bool \<Rightarrow> server \<Rightarrow> response option \<times> server" where
  "mcpPostHandler_catch headersSent st =
     (let st1 = say ErrorHandlingRequest st
      in if \<not> headersSent then (Some internal_error, st1) else (None, st1))"

text \<open>The \<^verbatim>\<open>onsessioninitialized\<close> callback given to the transport \<open>h\<close>.\<close>

definition onsessioninitialized :: "nat \<Rightarrow> string \<Rightarrow> server \<Rightarrow> server" where
  "onsessioninitialized h sid st =
     (let st1 = say (SessionInitializedWithID sid) st
      in st1\<lparr>transports := AList.update sid h (transports st1)\<rparr>)"

text \<open>The \<^verbatim>\<open>onclose\<close> handler assigned to the transport \<open>h\<close>.\<close>

definition onclose :: "nat \<Rightarrow> server \<Rightarrow> server" where
  "onclose h st =
     (case (if h < length (heap st) then sessionId (heap st ! h) else None) of
        None \<Rightarrow> st
      | Some sid \<Rightarrow>
          if sid \<noteq> [] \<and> get_property st sid \<noteq> None
          then (let st1 = say (TransportClosed sid) st
                in st1\<lparr>transports := AList.delete sid (transports st1)\<rparr>)
          else st)"

text \<open>
  \<^verbatim>\<open>mcpGetHandler\<close> has no \<^verbatim>\<open>try\<close>: if the map gave an inherited member the
  handler throws after its log lines, and the rejection is left to the framework.
\<close>

definition mcpGetHandler :: "request \<Rightarrow> server \<Rightarrow> handled \<times> server" where
  "mcpGetHandler req st =
     (case mcp_session_id req of
        None \<Rightarrow> (Responded invalid_session, st)
      | Some sid \<Rightarrow>
          (case (if sid = [] then None else get_property st sid) of
             None \<Rightarrow> (Responded invalid_session, st)
           | Some p \<Rightarrow>
               (let st1 = (if useOAuth st \<and> auth req then say AuthenticatedSSE st else st);
                    st2 = (if truthy (last_event_id req)
                           then say (ClientReconnecting (case last_event_id req of
                                                            Some l \<Rightarrow> l | None \<Rightarrow> [])) st1
                           else say (EstablishingStream sid) st1)
                in (case p of Transport h \<Rightarrow> HandleRequest h | Inherited \<Rightarrow> Threw, st2))))"

text \<open>
  \<^verbatim>\<open>mcpDeleteHandler\<close>, up to its \<^verbatim>\<open>await\<close>; a throw inside its \<^verbatim>\<open>try\<close> block is
  followed by the \<^verbatim>\<open>catch\<close> block below.
\<close>

definition mcpDeleteHandler :: "request \<Rightarrow> server \<Rightarrow> handled \<times> server" where
  "mcpDeleteHandler req st =
     (case mcp_session_id req of
        None \<Rightarrow> (Responded invalid_session, st)
      | Some sid \<Rightarrow>
          (case (if sid = [] then None else get_property st sid) of
             None \<Rightarrow> (Responded invalid_session, st)
           | Some p \<Rightarrow>
               (case p of Transport h \<Rightarrow> HandleRequest h | Inherited \<Rightarrow> Threw,
                say (TerminationRequest sid) st)))"

definition mcpDeleteHandler_catch :: "bool \<Rightarrow> server \<Rightarrow> response option \<times> server" where
  "mcpDeleteHandler_catch headersSent st =
     (let st1 = say ErrorHandlingTermination st
      in if \<not> headersSent then (Some termination_failed, st1) else (None, st1))"

subsection \<open>The transport's side\<close>

text \<open>
  The transport class comes from the SDK; the handlers rely on two of its behaviours.
  While it handles the initialization request (so after \<^verbatim>\<open>server.connect\<close>, once per
  transport, and not after it has closed) it takes an id from \<^verbatim>\<open>sessionIdGenerator\<close>,
  stores it in \<^verbatim>\<open>sessionId\<close> and calls \<^verbatim>\<open>onsessioninitialized\<close> with it. The
  generator is \<^verbatim>\<open>randomUUID\<close>: its values are UUIDs, never the name of an inherited
  member. When the transport closes (a DELETE it handles, or \<^verbatim>\<open>close()\<close>) it calls
  \<^verbatim>\<open>onclose\<close>, once.
\<close>

definition transport_initializes :: "nat \<Rightarrow> string \<Rightarrow> server \<Rightarrow> server" where
  "transport_initializes h sid st =
     (if h < length (heap st) \<and> connected (heap st ! h) \<and> sessionId (heap st ! h) = None
         \<and> \<not> closed (heap st ! h) \<and> sid \<notin> set Object_prototype_names
      then onsessioninitialized h sid
             (st\<lparr>heap := (heap st)[h := (heap st ! h)\<lparr>sessionId := Some sid\<rparr>]\<rparr>)
      else st)"

definition transport_closes :: "nat \<Rightarrow> server \<Rightarrow> server" where
  "transport_closes h st =
     (if h < length (heap st) \<and> \<not> closed (heap st ! h)
      then (let st1 = st\<lparr>heap := (heap st)[h := (heap st ! h)\<lparr>closed := True\<rparr>]\<rparr>
            in if onclose_set (heap st ! h) then onclose h st1 else st1)
      else st)"

subsection \<open>Runs of the server\<close>

text \<open>
  The process is single-threaded: between two \<^verbatim>\<open>await\<close>s a handler runs alone. A run
  is a sequence of such steps: a request arrives and its handler runs to its first
  \<^verbatim>\<open>await\<close> (or throws, and its \<^verbatim>\<open>catch\<close> block, if it has one, runs at once, no
  header being sent yet); \<^verbatim>\<open>server.connect\<close> resolves for a new transport; an awaited
  call rejects and the \<^verbatim>\<open>catch\<close> block runs; a transport initialises its session
  with a generated id; a transport closes.
\<close>

datatype event =
    POST request
  | PostConnected nat
  | PostRejected bool
  | GET request
  | DELETE request
  | DeleteRejected bool
  | SessionInitialized nat string
  | Closed nat

fun step :: "server \<Rightarrow> event \<Rightarrow> server" where
  "step st (POST req) =
     (case mcpPostHandler req st of
        (Threw, st1) \<Rightarrow> snd (mcpPostHandler_catch False st1)
      | (_, st1) \<Rightarrow> st1)"
| "step st (PostConnected h) = snd (mcpPostHandler_connected h st)"
| "step st (PostRejected hs) = snd (mcpPostHandler_catch hs st)"
| "step st (GET req) = snd (mcpGetHandler req st)"
| "step st (DELETE req) =
     (case mcpDeleteHandler req st of
        (Threw, st1) \<Rightarrow> snd (mcpDeleteHandler_catch False st1)
      | (_, st1) \<Rightarrow> st1)"
| "step st (DeleteRejected hs) = snd (mcpDeleteHandler_catch hs st)"
| "step st (SessionInitialized h sid) = transport_initializes h sid st"
| "step st (Closed h) = transport_closes h st"

definition run :: "server \<Rightarrow> event list \<Rightarrow> server" where
  "run st es = foldl step st es"

text \<open>The ids the generator (\<^verbatim>\<open>randomUUID\<close>) hands out in a run, in order.\<close>

fun generated :: "event list \<Rightarrow> string list" where
  "generated [] = []"
| "generated (SessionInitialized h sid # es) = sid # generated es"
| "generated (_ # es) = generated es"

subsection \<open>Starting the server\<close>

text \<open>
  \<^verbatim>\<open>app.listen(port, callback)\<close> throws at once (a port that is no valid port number),
  or binds and reports the port actually bound, or emits an error with a code. The
  framework runs the callback once in both of the last two cases: on
  \<^verbatim>\<open>listening\<close>, and on \<^verbatim>\<open>error\<close> before the error handler that \<^verbatim>\<open>startServer\<close>
  registers; after a failed bind \<^verbatim>\<open>server.address()\<close> is null and the callback logs
  the port asked for. \<open>env\<close> is \<^verbatim>\<open>process.env.MCP_PORT\<close>, \<open>oauth\<close> the
  \<^verbatim>\<open>--oauth\<close> flag, \<open>parseInt\<close> stands for \<^verbatim>\<open>Number.parseInt(_, 10)\<close>. The result
  of \<^verbatim>\<open>startServer\<close> is what becomes of the process, with the lines it logs.
\<close>

datatype listen_result = Throws | Bound nat | Failed string

datatype process = Serving nat | Exited nat | Uncaught

definition MCP_PORT :: "(string \<Rightarrow> nat) \<Rightarrow> string option \<Rightarrow> nat" where
  "MCP_PORT parseInt env = (case env of None \<Rightarrow> 3000 | Some v \<Rightarrow> if v \<noteq> [] then parseInt v else 3000)"

definition listen_callback :: "bool \<Rightarrow> nat \<Rightarrow> log_line list" where
  "listen_callback oauth actualPort =
     Listening actualPort # (if oauth then [ProtectedResourceMetadata actualPort] else [])"

fun startServer ::
  "bool \<Rightarrow> (nat \<Rightarrow> listen_result) \<Rightarrow> string option \<Rightarrow> nat \<Rightarrow> process \<times> log_line list" where
  "startServer oauth listen env port =
     (case listen port of
        Throws \<Rightarrow> (Uncaught, [])
      | Bound actualPort \<Rightarrow> (Serving actualPort, listen_callback oauth actualPort)
      | Failed errno \<Rightarrow>
          if errno = ''EADDRINUSE'' \<and> \<not> truthy env \<and> port \<noteq> 0
          then (let (p, l) = startServer oauth listen env 0
                in (p, listen_callback oauth port @ PortInUse port # l))
          else (Exited 1, listen_callback oauth port @ [FailedToStart]))"

declare startServer.simps [simp del]

definition busy3000 :: "nat \<Rightarrow> listen_result" where
  "busy3000 port = (if port = 3000 then Failed ''EADDRINUSE'' else if port = 0 then Bound 49152 else Bound port)"

subsection \<open>Invariants of a run\<close>

text \<open>
  \<open>published\<close>: every transport in the registry was put there by the
  \<^verbatim>\<open>onsessioninitialized\<close> callback (which logs the id first), carries that id, has
  its \<^verbatim>\<open>onclose\<close> handler and is connected. \<open>unique_ids G\<close>: the ids of the
  transports are non-empty ids of \<open>G\<close>, no two transports share one, and a transport
  in the registry carries its key and has not closed. \<open>uuid_ids\<close>: no transport
  carries the name of an inherited member as its id.
\<close>

definition published :: "server \<Rightarrow> bool" where
  "published st \<longleftrightarrow>
     (\<forall>h < length (heap st). onclose_set (heap st ! h))
     \<and> (\<forall>sid h. map_of (transports st) sid = Some h \<longrightarrow>
           SessionInitializedWithID sid \<in> set (console st)
           \<and> h < length (heap st) \<and> sessionId (heap st ! h) = Some sid
           \<and> connected (heap st ! h))"

definition unique_ids :: "string set \<Rightarrow> server \<Rightarrow> bool" where
  "unique_ids G st \<longleftrightarrow>
     (\<forall>h sid. h < length (heap st) \<and> sessionId (heap st ! h) = Some sid \<longrightarrow> sid \<in> G \<and> sid \<noteq> [])
     \<and> (\<forall>h h' sid. h < length (heap st) \<and> h' < length (heap st)
           \<and> sessionId (heap st ! h) = Some sid \<and> sessionId (heap st ! h') = Some sid
           \<longrightarrow> h = h')
     \<and> (\<forall>sid h. map_of (transports st) sid = Some h \<longrightarrow>
           h < length (heap st) \<and> sessionId (heap st ! h) = Some sid \<and> \<not> closed (heap st ! h))
     \<and> distinct (map fst (transports st))
     \<and> (\<forall>h < length (heap st). onclose_set (heap st ! h))"

definition uuid_ids :: "server \<Rightarrow> bool" where
  "uuid_ids st \<longleftrightarrow>
     (\<forall>h sid. h < length (heap st) \<and> sessionId (heap st ! h) = Some sid \<longrightarrow>
         sid \<notin> set Object_prototype_names)"

subsection \<open>Example requests and runs\<close>

definition init_req :: request where
  "init_req = \<lparr>mcp_session_id = None, last_event_id = None, is_initialize = True, auth = False\<rparr>"

definition call_req :: "string \<Rightarrow> request" where
  "call_req sid = \<lparr>mcp_session_id = Some sid, last_event_id = None, is_initialize = False, auth = False\<rparr>"

definition handshake :: "event list" where
  "handshake = [POST init_req, PostConnected 0]"

definition session_S1 :: "event list" where
  "session_S1 = handshake @ [SessionInitialized 0 ''S1'']"

definition closed_S1 :: "event list" where
  "closed_S1 = session_S1 @ [DELETE (call_req ''S1''), Closed 0]"

subsection \<open>Shutdown\<close>











subsection \<open>The resumable event store\<close>

text \<open>
  Modelled from the spec: the Event Log of the Resumable Event Store
  (\<^verbatim>\<open>./inMemoryEventStore.js\<close>, imported by src/index.ts, is not among the sources). A
  stream's log is the ordered sequence of its (cursor, payload) pairs.
\<close>

type_synonym 'p event_log = "(nat \<times> 'p) list"

text \<open>
  Modelled from the spec: \<^verbatim>\<open>append(streamId, payload) -> cursor\<close> assigns the next
  cursor of the stream, stores the event and returns the cursor; cursors strictly
  increase, are never reused, and start at 1.
\<close>

definition next_cursor :: "'p event_log \<Rightarrow> nat" where
  "next_cursor log = (if log = [] then 1 else fst (last log) + 1)"

definition append_event :: "'p event_log \<Rightarrow> 'p \<Rightarrow> 'p event_log \<times> nat" where
  "append_event log p = (log @ [(next_cursor log, p)], next_cursor log)"

text \<open>
  Modelled from the spec: the log of a stream that has received the payloads \<open>ps\<close>,
  one append after the other.
\<close>

definition received :: "'p list \<Rightarrow> 'p event_log" where
  "received ps = foldl (\<lambda>log p. fst (append_event log p)) [] ps"

text \<open>
  Modelled from the spec: \<^verbatim>\<open>replayFrom(streamId, cursor, sink)\<close> delivers in order
  every stored event with a greater cursor, then keeps the sink subscribed; appends
  arriving during the replay are queued and delivered after the backlog is drained. The
  state of a replay is the log, the stored events still to deliver, the queue of events
  appended since, and what the sink has received.
\<close>

record 'p replay =
  log :: "'p event_log"
  backlog :: "(nat \<times> 'p) list"
  queued :: "(nat \<times> 'p) list"
  delivered :: "(nat \<times> 'p) list"

definition replayFrom :: "'p event_log \<Rightarrow> nat \<Rightarrow> 'p replay" where
  "replayFrom l k = \<lparr>log = l, backlog = filter (\<lambda>(c, p). c > k) l, queued = [], delivered = []\<rparr>"

text \<open>
  Modelled from the spec: without a last-delivered cursor the stream begins live-only,
  no backlog is delivered.
\<close>

definition live_only :: "'p event_log \<Rightarrow> 'p replay" where
  "live_only l = \<lparr>log = l, backlog = [], queued = [], delivered = []\<rparr>"

text \<open>
  Modelled from the spec: the replay and the appending requests are distinct flows that
  interleave; a schedule is any sequence of appends (by other requests) and deliveries
  (of the next pending event to the sink).
\<close>

datatype 'p action = Append 'p | Deliver

fun replay_step :: "'p replay \<Rightarrow> 'p action \<Rightarrow> 'p replay" where
  "replay_step r (Append p) =
     (let (l, c) = append_event (log r) p
      in r\<lparr>log := l, queued := queued r @ [(c, p)]\<rparr>)"
| "replay_step r Deliver =
     (case backlog r of
        x # xs \<Rightarrow> r\<lparr>backlog := xs, delivered := delivered r @ [x]\<rparr>
      | [] \<Rightarrow>
          (case queued r of
             y # ys \<Rightarrow> r\<lparr>queued := ys, delivered := delivered r @ [y]\<rparr>
           | [] \<Rightarrow> r))"

definition replay_run :: "'p replay \<Rightarrow> 'p action list \<Rightarrow> 'p replay" where
  "replay_run r sched = foldl replay_step r sched"

definition appended :: "'p action list \<Rightarrow> 'p list" where
  "appended sched = concat (map (\<lambda>a. case a of Append p \<Rightarrow> [p] | Deliver \<Rightarrow> []) sched)"

text \<open>
  Modelled from the spec: a stream reopen. \<^verbatim>\<open>mcpGetHandler\<close> (from the source) hands
  the request to the transport of the session; the transport, whose code is not among
  the sources, replays from the cursor in the \<^verbatim>\<open>last-event-id\<close> header if there is
  one and starts live-only otherwise. \<open>logs h\<close> is the log of the stream of transport
  \<open>h\<close>, \<open>cursor_of\<close> reads the cursor from the header value.
\<close>

definition stream_reopen ::
  "(string \<Rightarrow> nat) \<Rightarrow> (nat \<Rightarrow> 'p event_log) \<Rightarrow> request \<Rightarrow> server \<Rightarrow> 'p replay option" where
  "stream_reopen cursor_of logs req st =
     (case fst (mcpGetHandler req st) of
        HandleRequest h \<Rightarrow>
          (case last_event_id req of
             None \<Rightarrow> Some (live_only (logs h))
           | Some l \<Rightarrow> if l \<noteq> [] then Some (replayFrom (logs h) (cursor_of l))
                        else Some (live_only (logs h)))
      | _ \<Rightarrow> None)"

text \<open>An example: events 1 to 5 received, and a reopen with last-event-id 3.\<close>

definition decimal_cursor :: "string \<Rightarrow> nat" where
  "decimal_cursor s = foldl (\<lambda>n c. 10 * n + (of_char c - 48)) 0 s"

definition five_events :: "nat \<Rightarrow> string event_log" where
  "five_events h = received [''e1'', ''e2'', ''e3'', ''e4'', ''e5'']"

definition reopen_req :: request where
  "reopen_req = \<lparr>mcp_session_id = Some ''S1'', last_event_id = Some ''3'', is_initialize = False,
                 auth = False\<rparr>"

section \<open>Properties of the personal notes\<close>

lemma trim_blank: "trim (js ''  '') = []"
  by (simp add: trim_def js_def is_js_whitespace_def)

lemma trim_tej: "trim (js '' tej '') = js ''tej''"
  by (simp add: trim_def js_def is_js_whitespace_def)

lemma trim_lone_surrogate: "trim [55357] = [55357]" "trim [] = []"
  by (simp_all add: trim_def is_js_whitespace_def)

lemma utf8_ascii_a: "utf8_decode [97] = [97]" "utf8_decode [97, 10] = [97, 10]" "utf8_decode [] = []"
  by (simp_all add: utf8_decode_def lead_def utf16_units_def)

lemma utf8_encode_tej:
  "utf8_encode ([97] @ [10] @ js ''tej'' @ [10]) = [97, 10, 116, 101, 106, 10]"
  "utf8_encode ([97, 10] @ [] @ js ''tej'' @ [10]) = [97, 10, 116, 101, 106, 10]"
  "utf8_encode ([] @ [] @ js ''tej'' @ [10]) = [116, 101, 106, 10]"
  by (simp_all add: utf8_encode_def utf8_bytes_def is_surrogate_def js_def)

lemma utf8_lone_surrogate:
  "utf8_encode [97, 10, 55357, 10] = [97, 10, 239, 191, 189, 10]"
  "utf8_decode [97, 10, 239, 191, 189, 10] = [97, 10, 65533, 10]"
proof -
  have "code_points [97, 10, 55357, 10] = [97, 10, 65533, 10]"
    by (simp add: is_surrogate_def)
  then show "utf8_encode [97, 10, 55357, 10] = [97, 10, 239, 191, 189, 10]"
    by (simp add: utf8_encode_def utf8_bytes_def)
  show "utf8_decode [97, 10, 239, 191, 189, 10] = [97, 10, 65533, 10]"
    by (simp add: utf8_decode_def lead_def utf16_units_def)
qed

text \<open>
  C10, as stated, fails in three places. With no notes file yet, \<^verbatim>\<open>appendNote\<close> of a
  blank text leaves the file written by \<^verbatim>\<open>ensureNotesFile\<close> behind: the content
  changed from nothing to the default notes. The empty text, whose trimmed form is
  empty, is refused by the tool's input schema, so the tool returns no success message
  for it. And the file holds UTF-8, not the string: a text that is a lone surrogate is
  written as the three bytes of U+FFFD, so the file read back is not the previous
  content followed by the trimmed text.
\<close>

theorem appendNote_frame_counterexample:
  "snd (appendNote utf8 all_succeed (js ''  '') None) = Some (utf8_encode (DEFAULT_NOTES @ [10]))
   \<and> trim (js ''  '') = []
   \<and> trim [] = [] \<and> fst (add_note utf8 all_succeed [] (Some [])) = Inl InvalidParams
   \<and> trim [55357] = [55357]
   \<and> snd (appendNote utf8 all_succeed [55357] (Some [97, 10])) = Some [97, 10, 239, 191, 189, 10]
   \<and> utf8_decode [97, 10, 239, 191, 189, 10] = [97, 10, 65533, 10]"
  by (simp add: appendNote_def ensureNotesFile_def mkdir_def readFile_def writeFile_def
      all_succeed_def utf8_def trim_blank add_note_def utf8_ascii_a utf8_lone_surrogate
      trim_lone_surrogate endsWith_nl_def Let_def)

text \<open>
  C10, amended. For every encoding of strings as file contents and however the calls of
  the file system end. If the trimmed text is empty, \<^verbatim>\<open>appendNote\<close> leaves the file as
  \<^verbatim>\<open>ensureNotesFile\<close> left it, and when it has resolved for a text of length at least
  1, the \<^verbatim>\<open>add_note\<close> tool returns the success message quoting the (empty) trimmed
  text. If the trimmed text is not empty and \<^verbatim>\<open>appendNote\<close> resolves, the file
  afterwards is the encoding of: the string that the file left by \<^verbatim>\<open>ensureNotesFile\<close>
  decodes to, a newline if that string is non-empty and does not end with one, the
  trimmed text, and a newline. \<^verbatim>\<open>ensureNotesFile\<close> leaves a file that exists and can
  be read as it is.
\<close>

theorem appendNote_frame:
  "(trim inp = [] \<longrightarrow>
      snd (appendNote c io inp f) = snd (ensureNotesFile c io f)
      \<and> (length inp \<ge> 1 \<and> fst (appendNote c io inp f) = Inr () \<longrightarrow>
           fst (add_note c io inp f) = Inr (js ''Jegyzet hozzaadva: '' @ [34] @ trim inp @ [34])))
   \<and> (trim inp \<noteq> [] \<and> fst (appendNote c io inp f) = Inr () \<longrightarrow>
        (\<exists>b. snd (ensureNotesFile c io f) = Some b
           \<and> snd (appendNote c io inp f)
               = Some (encode c (decode c b
                                 @ (if decode c b \<noteq> [] \<and> last (decode c b) \<noteq> 10 then [10] else [])
                                 @ trim inp @ [10]))))
   \<and> (f \<noteq> None \<and> ensure_read_ok io \<longrightarrow> snd (ensureNotesFile c io f) = f)"
proof (intro conjI impI)
  assume t: "trim inp = []"
  show "snd (appendNote c io inp f) = snd (ensureNotesFile c io f)"
    using t by (simp add: appendNote_def Let_def split: prod.splits sum.splits)
  assume "length inp \<ge> 1 \<and> fst (appendNote c io inp f) = Inr ()"
  then show "fst (add_note c io inp f) = Inr (js ''Jegyzet hozzaadva: '' @ [34] @ trim inp @ [34])"
    by (auto simp: add_note_def add_note_callback_def split: prod.splits sum.splits)
next
  assume a: "trim inp \<noteq> [] \<and> fst (appendNote c io inp f) = Inr ()"
  obtain r f1 where e: "ensureNotesFile c io f = (r, f1)" by (cases "ensureNotesFile c io f")
  from a e obtain existing where r: "readFile c (read_ok io) f1 = Inr existing"
    by (auto simp: appendNote_def split: sum.splits)
  then obtain b where b: "f1 = Some b" "existing = decode c b"
    by (auto simp: readFile_def split: if_splits option.splits)
  from a e r have w: "final_write io = Written"
    by (auto simp: appendNote_def Let_def writeFile_def split: sum.splits write_outcome.splits)
  from a e r w b show "\<exists>b. snd (ensureNotesFile c io f) = Some b
           \<and> snd (appendNote c io inp f)
               = Some (encode c (decode c b
                                 @ (if decode c b \<noteq> [] \<and> last (decode c b) \<noteq> 10 then [10] else [])
                                 @ trim inp @ [10]))"
    by (auto simp: appendNote_def Let_def writeFile_def endsWith_nl_def split: sum.splits)
next
  assume "f \<noteq> None \<and> ensure_read_ok io"
  then show "snd (ensureNotesFile c io f) = f"
    by (auto simp: ensureNotesFile_def readFile_def mkdir_def split: sum.splits)
qed

theorem appendNote_frame_witness:
  "trim (js ''  '') = [] \<and> length (js ''  '') \<ge> 1
   \<and> appendNote utf8 all_succeed (js ''  '') (Some [97]) = (Inr (), Some [97])
   \<and> fst (add_note utf8 all_succeed (js ''  '') (Some [97])) = Inr (js ''Jegyzet hozzaadva: '' @ [34, 34])
   \<and> trim (js '' tej '') \<noteq> []
   \<and> appendNote utf8 all_succeed (js '' tej '') (Some [97]) = (Inr (), Some [97, 10, 116, 101, 106, 10])
   \<and> appendNote utf8 all_succeed (js '' tej '') (Some [97, 10])
       = (Inr (), Some [97, 10, 116, 101, 106, 10])
   \<and> appendNote utf8 all_succeed (js '' tej '') (Some []) = (Inr (), Some [116, 101, 106, 10])"
proof -
  have e: "\<And>b. ensureNotesFile utf8 all_succeed (Some b) = (Inr (), Some b)"
    by (simp add: ensureNotesFile_def mkdir_def readFile_def all_succeed_def)
  have ok: "\<And>inp b. fst (appendNote utf8 all_succeed inp (Some b)) = Inr ()"
    by (simp add: appendNote_def e) (simp add: readFile_def writeFile_def all_succeed_def Let_def)
  have t: "trim (js ''  '') = []" "length (js ''  '') \<ge> 1" "trim (js '' tej '') \<noteq> []"
    by (simp_all add: trim_blank trim_tej) (simp_all add: js_def)
  have c: "encode utf8 = utf8_encode" "decode utf8 = utf8_decode"
    by (simp_all add: utf8_def)
  from appendNote_frame [where c = utf8 and io = all_succeed and inp = "js ''  ''" and f = "Some [97]"]
    t ok e
  have 1: "snd (appendNote utf8 all_succeed (js ''  '') (Some [97])) = Some [97]
      \<and> fst (add_note utf8 all_succeed (js ''  '') (Some [97])) = Inr (js ''Jegyzet hozzaadva: '' @ [34, 34])"
    by simp
  from appendNote_frame [where c = utf8 and io = all_succeed and inp = "js '' tej ''" and f = "Some [97]"]
    t ok e
  have 2: "snd (appendNote utf8 all_succeed (js '' tej '') (Some [97])) = Some [97, 10, 116, 101, 106, 10]"
    using utf8_encode_tej by (simp add: c utf8_ascii_a trim_tej)
  from appendNote_frame [where c = utf8 and io = all_succeed and inp = "js '' tej ''" and f = "Some [97, 10]"]
    t ok e
  have 3: "snd (appendNote utf8 all_succeed (js '' tej '') (Some [97, 10])) = Some [97, 10, 116, 101, 106, 10]"
    using utf8_encode_tej by (simp add: c utf8_ascii_a trim_tej)
  from appendNote_frame [where c = utf8 and io = all_succeed and inp = "js '' tej ''" and f = "Some []"]
    t ok e
  have 4: "snd (appendNote utf8 all_succeed (js '' tej '') (Some [])) = Some [116, 101, 106, 10]"
    using utf8_encode_tej by (simp add: c utf8_ascii_a trim_tej)
  show ?thesis
    using t 1 2 3 4 ok [of "js ''  ''" "[97]"] ok [of "js '' tej ''" "[97]"]
      ok [of "js '' tej ''" "[97, 10]"] ok [of "js '' tej ''" "[]"]
    by (simp add: prod_eq_iff)
qed

section \<open>Properties of the request handlers\<close>

lemmas handler_defs = mcpPostHandler_def mcpGetHandler_def mcpDeleteHandler_def
  session_transport_def get_property_def truthy_def say_def Let_def

text \<open>
  C3, as stated, fails for a session id header that is present but empty: the handler
  tests the header for truthiness, so the empty value counts as no header, and with an
  initialization payload a new transport is made although the header does not resolve.
  (It also fails, by a slip of the code and not by its design, for a header that names
  an inherited member; that input is the subject of the theorems on C2 and C6 below.)
\<close>

theorem post_reject_counterexample:
  "mcpPostHandler \<lparr>mcp_session_id = Some [], last_event_id = None, is_initialize = True, auth = False\<rparr>
       (init_server False)
     = (Connect 0, \<lparr>transports = [], heap = [new_transport], console = [RequestBody], useOAuth = False\<rparr>)
   \<and> map_of (transports (init_server False)) [] = None"
  by (simp add: handler_defs init_server_def)

text \<open>
  C3, amended. If the session id header of a POST is absent or empty and the payload is
  not an initialization request, or the header is non-empty, is not the name of a
  member that every object inherits, and does not resolve in the transports map, the
  request is answered with status 400 and the JSON-RPC error of code -32000, no
  transport is made or invoked, and the transports map and the transport objects are
  unchanged; no \<^verbatim>\<open>catch\<close> block runs, so this is all the request does.
\<close>

theorem post_reject:
  assumes "((mcp_session_id req = None \<or> mcp_session_id req = Some []) \<and> \<not> is_initialize req)
           \<or> (\<exists>sid. mcp_session_id req = Some sid \<and> sid \<noteq> []
                  \<and> sid \<notin> set Object_prototype_names \<and> map_of (transports st) sid = None)"
  shows "fst (mcpPostHandler req st) = Responded bad_request
         \<and> status bad_request = 400
         \<and> body bad_request = Json \<lparr>code = - 32000, message = ''Bad Request: No valid session ID provided'', rpc_id = None\<rparr>
         \<and> transports (snd (mcpPostHandler req st)) = transports st
         \<and> heap (snd (mcpPostHandler req st)) = heap st
         \<and> step st (POST req) = snd (mcpPostHandler req st)"
  using assms by (auto simp: handler_defs bad_request_def split: option.splits)

theorem post_reject_witness:
  "''S-unknown'' \<notin> set Object_prototype_names
   \<and> map_of (transports (init_server False)) ''S-unknown'' = None
   \<and> fst (mcpPostHandler \<lparr>mcp_session_id = Some ''S-unknown'', last_event_id = None,
                            is_initialize = True, auth = False\<rparr> (init_server False))
       = Responded bad_request
   \<and> fst (mcpPostHandler \<lparr>mcp_session_id = None, last_event_id = None,
                            is_initialize = False, auth = False\<rparr> (init_server False))
       = Responded bad_request
   \<and> status bad_request = 400"
  using post_reject [of "\<lparr>mcp_session_id = Some ''S-unknown'', last_event_id = None,
                          is_initialize = True, auth = False\<rparr>" "init_server False"]
    post_reject [of "\<lparr>mcp_session_id = None, last_event_id = None,
                       is_initialize = False, auth = False\<rparr>" "init_server False"]
  by (simp add: init_server_def Object_prototype_names_def)

text \<open>
  C7, as stated, fails on the GET and DELETE routes: a request without a session id is
  answered there with status 400 and the plain text \<open>Invalid or missing session ID\<close>,
  not with a structured error object.
\<close>

theorem rejection_body_counterexample:
  "fst (mcpGetHandler \<lparr>mcp_session_id = None, last_event_id = None, is_initialize = False,
                        auth = False\<rparr> (init_server False))
     = Responded \<lparr>status = 400, body = Text ''Invalid or missing session ID''\<rparr>
   \<and> fst (mcpDeleteHandler \<lparr>mcp_session_id = None, last_event_id = None, is_initialize = False,
                             auth = False\<rparr> (init_server False))
     = Responded \<lparr>status = 400, body = Text ''Invalid or missing session ID''\<rparr>"
  by (simp add: handler_defs init_server_def invalid_session_def)

text \<open>
  C7, amended. Every response that a handler itself writes before any transport is
  invoked has status 400; on the POST route its body is the JSON-RPC error object with
  code -32000 and a null id, on the GET and DELETE routes its body is the plain text
  \<open>Invalid or missing session ID\<close>.
\<close>

theorem rejection_body:
  "(fst (mcpPostHandler req st) = Responded r \<longrightarrow>
      status r = 400 \<and> body r = Json \<lparr>code = - 32000, message = ''Bad Request: No valid session ID provided'', rpc_id = None\<rparr>)
   \<and> (fst (mcpGetHandler req st) = Responded r \<longrightarrow>
      status r = 400 \<and> body r = Text ''Invalid or missing session ID'')
   \<and> (fst (mcpDeleteHandler req st) = Responded r \<longrightarrow>
      status r = 400 \<and> body r = Text ''Invalid or missing session ID'')"
  by (auto simp: handler_defs bad_request_def invalid_session_def
      split: option.splits if_splits property.splits)

theorem rejection_body_witness:
  "fst (mcpPostHandler \<lparr>mcp_session_id = Some ''S-unknown'', last_event_id = None,
                         is_initialize = False, auth = False\<rparr> (init_server False))
     = Responded bad_request
   \<and> status bad_request = 400
   \<and> body bad_request = Json \<lparr>code = - 32000, message = ''Bad Request: No valid session ID provided'', rpc_id = None\<rparr>
   \<and> fst (mcpGetHandler \<lparr>mcp_session_id = Some ''S-unknown'', last_event_id = None,
                          is_initialize = False, auth = False\<rparr> (init_server False))
     = Responded invalid_session
   \<and> fst (mcpDeleteHandler \<lparr>mcp_session_id = Some ''S-unknown'', last_event_id = None,
                          is_initialize = False, auth = False\<rparr> (init_server False))
     = Responded invalid_session
   \<and> status invalid_session = 400
   \<and> body invalid_session = Text ''Invalid or missing session ID''"
  using rejection_body [of "\<lparr>mcp_session_id = Some ''S-unknown'', last_event_id = None,
                             is_initialize = False, auth = False\<rparr>" "init_server False" bad_request]
    rejection_body [of "\<lparr>mcp_session_id = Some ''S-unknown'', last_event_id = None,
                             is_initialize = False, auth = False\<rparr>" "init_server False" invalid_session]
  by (simp add: handler_defs init_server_def Object_prototype_names_def)



section \<open>Properties of the server start\<close>

text \<open>
  C9, as stated, fails when \<^verbatim>\<open>MCP_PORT\<close> is set to the empty string: the variable is
  not unset, yet \<^verbatim>\<open>!process.env.MCP_PORT\<close> holds, and the server falls back to an
  ephemeral port instead of exiting.
\<close>

theorem startServer_fallback_counterexample:
  "busy3000 3000 = Failed ''EADDRINUSE'' \<and> Some [] \<noteq> (None :: string option)
   \<and> fst (startServer False busy3000 (Some []) 3000) = Serving 49152"
  by (simp add: startServer.simps busy3000_def truthy_def)

text \<open>
  C9, amended. If binding the attempted port fails with \<open>EADDRINUSE\<close>, the
  \<^verbatim>\<open>MCP_PORT\<close> environment variable is unset or empty, and the attempted port is not
  0, the server starts again on port 0, and what becomes of the process is what becomes
  of that second start: it serves on the port bound there, exits with status 1 if that
  bind fails too, or dies of the exception if \<^verbatim>\<open>app.listen\<close> throws. In every other
  bind-error case the process exits with status 1.
\<close>

theorem startServer_fallback:
  assumes "listen port = Failed errno"
  shows "(errno = ''EADDRINUSE'' \<and> (env = None \<or> env = Some []) \<and> port \<noteq> 0 \<longrightarrow>
            fst (startServer oauth listen env port) = fst (startServer oauth listen env 0)
            \<and> fst (startServer oauth listen env 0)
              = (case listen 0 of Throws \<Rightarrow> Uncaught | Bound p \<Rightarrow> Serving p | Failed c \<Rightarrow> Exited 1))
         \<and> (\<not> (errno = ''EADDRINUSE'' \<and> (env = None \<or> env = Some []) \<and> port \<noteq> 0) \<longrightarrow>
            fst (startServer oauth listen env port) = Exited 1)"
proof -
  have t: "truthy env = (\<not> (env = None \<or> env = Some []))"
    by (cases env) (auto simp: truthy_def)
  have z: "fst (startServer oauth listen env 0)
      = (case listen 0 of Throws \<Rightarrow> Uncaught | Bound p \<Rightarrow> Serving p | Failed c \<Rightarrow> Exited 1)"
    by (subst startServer.simps) (simp split: listen_result.splits)
  have s: "startServer oauth listen env port =
      (if errno = ''EADDRINUSE'' \<and> \<not> truthy env \<and> port \<noteq> 0
       then (let (p, l) = startServer oauth listen env 0
             in (p, listen_callback oauth port @ PortInUse port # l))
       else (Exited 1, listen_callback oauth port @ [FailedToStart]))"
    using assms by (subst startServer.simps) simp
  show ?thesis using z unfolding s by (auto simp: t split: prod.splits)
qed

theorem startServer_fallback_witness:
  "busy3000 3000 = Failed ''EADDRINUSE''
   \<and> fst (startServer False busy3000 None 3000) = Serving 49152
   \<and> fst (startServer False busy3000 (Some ''3000'') 3000) = Exited 1"
proof -
  have b: "busy3000 3000 = Failed ''EADDRINUSE''" "busy3000 0 = Bound 49152"
    by (simp_all add: busy3000_def)
  from startServer_fallback [where listen = busy3000 and port = 3000 and errno = "''EADDRINUSE''"
      and env = None and oauth = False, OF b(1)] b(2)
  have 1: "fst (startServer False busy3000 None 3000) = Serving 49152" by simp
  from startServer_fallback [where listen = busy3000 and port = 3000 and errno = "''EADDRINUSE''"
      and env = "Some ''3000''" and oauth = False, OF b(1)]
  have 2: "fst (startServer False busy3000 (Some ''3000'') 3000) = Exited 1" by simp
  from b(1) 1 2 show ?thesis by blast
qed

section \<open>The registry along a run\<close>

lemma post_fields:
  "transports (snd (mcpPostHandler req st)) = transports st"
  "heap (snd (mcpPostHandler req st)) = heap st
   \<or> heap (snd (mcpPostHandler req st)) = heap st @ [new_transport]"
  "set (console st) \<subseteq> set (console (snd (mcpPostHandler req st)))"
  by (auto simp: handler_defs split: option.splits property.splits)

lemma get_fields:
  "transports (snd (mcpGetHandler req st)) = transports st"
  "heap (snd (mcpGetHandler req st)) = heap st"
  "set (console st) \<subseteq> set (console (snd (mcpGetHandler req st)))"
  by (auto simp: handler_defs split: option.splits property.splits)

lemma delete_fields:
  "transports (snd (mcpDeleteHandler req st)) = transports st"
  "heap (snd (mcpDeleteHandler req st)) = heap st"
  "set (console st) \<subseteq> set (console (snd (mcpDeleteHandler req st)))"
  by (auto simp: handler_defs split: option.splits property.splits)

lemma catch_fields:
  "transports (snd (mcpPostHandler_catch b st)) = transports st"
  "heap (snd (mcpPostHandler_catch b st)) = heap st"
  "set (console st) \<subseteq> set (console (snd (mcpPostHandler_catch b st)))"
  "transports (snd (mcpDeleteHandler_catch b st)) = transports st"
  "heap (snd (mcpDeleteHandler_catch b st)) = heap st"
  "set (console st) \<subseteq> set (console (snd (mcpDeleteHandler_catch b st)))"
  by (auto simp: mcpPostHandler_catch_def mcpDeleteHandler_catch_def say_def Let_def)

lemma step_POST:
  "step st (POST req) = snd (mcpPostHandler req st)
   \<or> step st (POST req) = snd (mcpPostHandler_catch False (snd (mcpPostHandler req st)))"
  by (cases "mcpPostHandler req st"; cases "fst (mcpPostHandler req st)") auto

lemma step_DELETE:
  "step st (DELETE req) = snd (mcpDeleteHandler req st)
   \<or> step st (DELETE req) = snd (mcpDeleteHandler_catch False (snd (mcpDeleteHandler req st)))"
  by (cases "mcpDeleteHandler req st"; cases "fst (mcpDeleteHandler req st)") auto

lemma request_fields:
  assumes "e = POST req \<or> e = GET req \<or> e = DELETE req \<or> e = PostRejected b \<or> e = DeleteRejected b"
  shows "transports (step st e) = transports st"
    and "heap (step st e) = heap st \<or> heap (step st e) = heap st @ [new_transport]"
    and "set (console st) \<subseteq> set (console (step st e))"
proof -
  have "transports (step st e) = transports st
    \<and> (heap (step st e) = heap st \<or> heap (step st e) = heap st @ [new_transport])
    \<and> set (console st) \<subseteq> set (console (step st e))"
    using assms
  proof (elim disjE)
    assume e: "e = POST req"
    from step_POST [of st req] show ?thesis
    proof
      assume "step st (POST req) = snd (mcpPostHandler req st)"
      then show ?thesis using post_fields [where req = req and st = st] e by auto
    next
      assume "step st (POST req) = snd (mcpPostHandler_catch False (snd (mcpPostHandler req st)))"
      then show ?thesis
        using post_fields [where req = req and st = st] catch_fields(1-3) [where b = False and st = "snd (mcpPostHandler req st)"] e
        by auto
    qed
  next
    assume e: "e = DELETE req"
    from step_DELETE [of st req] show ?thesis
    proof
      assume "step st (DELETE req) = snd (mcpDeleteHandler req st)"
      then show ?thesis using delete_fields [where req = req and st = st] e by auto
    next
      assume "step st (DELETE req) = snd (mcpDeleteHandler_catch False (snd (mcpDeleteHandler req st)))"
      then show ?thesis
        using delete_fields [where req = req and st = st] catch_fields(4-6) [where b = False and st = "snd (mcpDeleteHandler req st)"] e
        by auto
    qed
  next
    assume "e = GET req"
    then show ?thesis using get_fields [where req = req and st = st] by auto
  next
    assume "e = PostRejected b"
    then show ?thesis using catch_fields(1-3) [where b = b and st = st] by auto
  next
    assume "e = DeleteRejected b"
    then show ?thesis using catch_fields(4-6) [where b = b and st = st] by auto
  qed
  then show "transports (step st e) = transports st"
    and "heap (step st e) = heap st \<or> heap (step st e) = heap st @ [new_transport]"
    and "set (console st) \<subseteq> set (console (step st e))"
    by simp_all
qed

lemma published_frame:
  assumes "published st" "transports st' = transports st"
    "heap st' = heap st \<or> heap st' = heap st @ [new_transport]"
    "set (console st) \<subseteq> set (console st')"
  shows "published st'"
  using assms unfolding published_def
  by (auto simp: nth_append new_transport_def less_Suc_eq)

lemma published_connected:
  "published st \<Longrightarrow> published (snd (mcpPostHandler_connected h st))"
  unfolding published_def mcpPostHandler_connected_def
  by (auto simp: nth_list_update)

lemma published_initializes:
  "published st \<Longrightarrow> published (transport_initializes h sid st)"
  unfolding published_def transport_initializes_def onsessioninitialized_def say_def Let_def
  by (auto simp: nth_list_update update_conv')

lemma published_closes:
  "published st \<Longrightarrow> published (transport_closes h st)"
  unfolding published_def transport_closes_def onclose_def get_property_def say_def Let_def
  by (auto simp: nth_list_update delete_conv' split: option.splits if_splits)

lemma published_step: "published st \<Longrightarrow> published (step st e)"
proof (cases e)
  case (POST req)
  assume "published st"
  then show ?thesis unfolding POST
    by (rule published_frame) (rule request_fields, simp)+
next
  case (GET req)
  assume "published st"
  then show ?thesis unfolding GET
    by (rule published_frame) (rule request_fields, simp)+
next
  case (DELETE req)
  assume "published st"
  then show ?thesis unfolding DELETE
    by (rule published_frame) (rule request_fields, simp)+
next
  case (PostRejected b)
  assume "published st"
  then show ?thesis unfolding PostRejected
    by (rule published_frame) (rule request_fields, simp)+
next
  case (DeleteRejected b)
  assume "published st"
  then show ?thesis unfolding DeleteRejected
    by (rule published_frame) (rule request_fields, simp)+
qed (simp_all add: published_connected published_initializes published_closes)

lemma published_run: "published st \<Longrightarrow> published (run st es)"
  unfolding run_def by (induction es arbitrary: st) (simp_all add: published_step)

lemma published_init: "published (init_server oauth)"
  by (simp add: published_def init_server_def)

lemma unique_ids_frame:
  assumes "unique_ids G st" "transports st' = transports st"
    "heap st' = heap st \<or> heap st' = heap st @ [new_transport]"
  shows "unique_ids G st'"
  using assms(3)
proof
  assume "heap st' = heap st"
  with assms(1,2) show ?thesis by (simp add: unique_ids_def)
next
  assume h: "heap st' = heap st @ [new_transport]"
  have n: "\<And>k s. k < Suc (length (heap st)) \<Longrightarrow> sessionId ((heap st @ [new_transport]) ! k) = Some s
      \<Longrightarrow> k < length (heap st) \<and> sessionId (heap st ! k) = Some s"
    by (simp add: nth_append new_transport_def less_Suc_eq split: if_splits)
  have m: "\<And>k. k < length (heap st) \<Longrightarrow> (heap st @ [new_transport]) ! k = heap st ! k"
    by (simp add: nth_append)
  show ?thesis
    unfolding unique_ids_def h assms(2)
  proof (intro conjI allI impI)
    fix k sid assume "k < length (heap st @ [new_transport]) \<and>
      sessionId ((heap st @ [new_transport]) ! k) = Some sid"
    then have "k < length (heap st) \<and> sessionId (heap st ! k) = Some sid"
      using n [of k sid] by simp
    then show "sid \<in> G" "sid \<noteq> []" using assms(1) unfolding unique_ids_def by blast+
  next
    fix k k' sid assume a: "k < length (heap st @ [new_transport]) \<and> k' < length (heap st @ [new_transport])
      \<and> sessionId ((heap st @ [new_transport]) ! k) = Some sid
      \<and> sessionId ((heap st @ [new_transport]) ! k') = Some sid"
    then have "k < length (heap st) \<and> sessionId (heap st ! k) = Some sid"
      "k' < length (heap st) \<and> sessionId (heap st ! k') = Some sid"
      using n [of k sid] n [of k' sid] by simp_all
    then show "k = k'" using assms(1) unfolding unique_ids_def by blast
  next
    fix sid k assume "map_of (transports st) sid = Some k"
    then have "k < length (heap st) \<and> sessionId (heap st ! k) = Some sid \<and> \<not> closed (heap st ! k)"
      using assms(1) unfolding unique_ids_def by blast
    then show "k < length (heap st @ [new_transport])"
      "sessionId ((heap st @ [new_transport]) ! k) = Some sid"
      "\<not> closed ((heap st @ [new_transport]) ! k)"
      using m [of k] by auto
  next
    show "distinct (map fst (transports st))" using assms(1) by (simp add: unique_ids_def)
  next
    fix k assume "k < length (heap st @ [new_transport])"
    then show "onclose_set ((heap st @ [new_transport]) ! k)"
      using assms(1) by (auto simp: unique_ids_def nth_append new_transport_def)
  qed
qed

lemma unique_ids_cong:
  assumes u: "unique_ids G st"
    and len: "length (heap st') = length (heap st)"
    and ids: "\<And>k. k < length (heap st) \<Longrightarrow> sessionId (heap st' ! k) = sessionId (heap st ! k)"
    and reg: "\<And>sid k. map_of (transports st') sid = Some k \<Longrightarrow>
                map_of (transports st) sid = Some k \<and> \<not> closed (heap st' ! k)"
    and dist: "distinct (map fst (transports st'))"
    and ocs: "\<And>k. k < length (heap st) \<Longrightarrow> onclose_set (heap st' ! k) = onclose_set (heap st ! k)"
  shows "unique_ids G st'"
  unfolding unique_ids_def len
proof (intro conjI allI impI)
  fix k sid assume "k < length (heap st) \<and> sessionId (heap st' ! k) = Some sid"
  then have "k < length (heap st) \<and> sessionId (heap st ! k) = Some sid"
    using ids [of k] by simp
  then show "sid \<in> G" "sid \<noteq> []" using u unfolding unique_ids_def by blast+
next
  fix k k' sid
  assume "k < length (heap st) \<and> k' < length (heap st)
      \<and> sessionId (heap st' ! k) = Some sid \<and> sessionId (heap st' ! k') = Some sid"
  then have "k < length (heap st) \<and> k' < length (heap st)
      \<and> sessionId (heap st ! k) = Some sid \<and> sessionId (heap st ! k') = Some sid"
    using ids [of k] ids [of k'] by simp
  then show "k = k'" using u unfolding unique_ids_def by blast
next
  fix sid k assume a: "map_of (transports st') sid = Some k"
  then have b: "map_of (transports st) sid = Some k" and c: "\<not> closed (heap st' ! k)"
    using reg [of sid k] by simp_all
  from b have d: "k < length (heap st) \<and> sessionId (heap st ! k) = Some sid"
    using u unfolding unique_ids_def by blast
  then show "k < length (heap st)" by simp
  from d show "sessionId (heap st' ! k) = Some sid" using ids [of k] by simp
  from c show "\<not> closed (heap st' ! k)" .
next
  show "distinct (map fst (transports st'))" by (rule dist)
next
  fix k assume "k < length (heap st)"
  then show "onclose_set (heap st' ! k)"
    using ocs [of k] u unfolding unique_ids_def by simp
qed

lemma unique_ids_connected:
  assumes "unique_ids G st"
  shows "unique_ids G (snd (mcpPostHandler_connected h st))"
proof (rule unique_ids_cong [OF assms])
  show "length (heap (snd (mcpPostHandler_connected h st))) = length (heap st)"
    by (simp add: mcpPostHandler_connected_def)
  show "\<And>k. k < length (heap st) \<Longrightarrow>
      sessionId (heap (snd (mcpPostHandler_connected h st)) ! k) = sessionId (heap st ! k)"
    by (simp add: mcpPostHandler_connected_def nth_list_update)
  show "\<And>sid k. map_of (transports (snd (mcpPostHandler_connected h st))) sid = Some k \<Longrightarrow>
      map_of (transports st) sid = Some k \<and> \<not> closed (heap (snd (mcpPostHandler_connected h st)) ! k)"
  proof -
    fix sid k assume "map_of (transports (snd (mcpPostHandler_connected h st))) sid = Some k"
    then have a: "map_of (transports st) sid = Some k"
      by (simp add: mcpPostHandler_connected_def split: if_splits)
    then have "k < length (heap st) \<and> \<not> closed (heap st ! k)"
      using assms unfolding unique_ids_def by blast
    then have "\<not> closed (heap (snd (mcpPostHandler_connected h st)) ! k)"
      by (simp add: mcpPostHandler_connected_def nth_list_update)
    with a show "map_of (transports st) sid = Some k
        \<and> \<not> closed (heap (snd (mcpPostHandler_connected h st)) ! k)" by simp
  qed
  show "distinct (map fst (transports (snd (mcpPostHandler_connected h st))))"
    using assms by (simp add: mcpPostHandler_connected_def unique_ids_def)
  show "\<And>k. k < length (heap st) \<Longrightarrow>
      onclose_set (heap (snd (mcpPostHandler_connected h st)) ! k) = onclose_set (heap st ! k)"
    by (simp add: mcpPostHandler_connected_def nth_list_update)
qed

lemma transport_closes_fields:
  "length (heap (transport_closes h st)) = length (heap st)"
  "k < length (heap st) \<Longrightarrow> sessionId (heap (transport_closes h st) ! k) = sessionId (heap st ! k)"
  "k < length (heap st) \<Longrightarrow> closed (heap (transport_closes h st) ! k)
      = (closed (heap st ! k) \<or> k = h)"
  "k < length (heap st) \<Longrightarrow> onclose_set (heap (transport_closes h st) ! k)
      = onclose_set (heap st ! k)"
  by (simp_all add: transport_closes_def onclose_def get_property_def say_def Let_def nth_list_update
      split: option.splits)

lemma transport_closes_registry:
  "map_of (transports (transport_closes h st)) =
     (if h < length (heap st) \<and> \<not> closed (heap st ! h) \<and> onclose_set (heap st ! h)
      then (case sessionId (heap st ! h) of
              None \<Rightarrow> map_of (transports st)
            | Some sid \<Rightarrow> if sid \<noteq> [] then (map_of (transports st))(sid := None)
                          else map_of (transports st))
      else map_of (transports st))"
  by (auto simp: transport_closes_def onclose_def get_property_def say_def Let_def delete_conv' fun_eq_iff
      split: option.splits)

lemma transport_closes_distinct:
  "distinct (map fst (transports st)) \<Longrightarrow> distinct (map fst (transports (transport_closes h st)))"
  by (simp add: transport_closes_def onclose_def get_property_def say_def Let_def distinct_delete
      split: option.splits)

lemma unique_ids_closes:
  assumes "unique_ids G st"
  shows "unique_ids G (transport_closes h st)"
proof (rule unique_ids_cong [OF assms])
  show "length (heap (transport_closes h st)) = length (heap st)"
    by (rule transport_closes_fields)
  show "\<And>k. k < length (heap st) \<Longrightarrow>
      sessionId (heap (transport_closes h st) ! k) = sessionId (heap st ! k)"
    by (rule transport_closes_fields)
  show "distinct (map fst (transports (transport_closes h st)))"
    using assms by (simp add: transport_closes_distinct unique_ids_def)
  show "\<And>k. k < length (heap st) \<Longrightarrow>
      onclose_set (heap (transport_closes h st) ! k) = onclose_set (heap st ! k)"
    by (rule transport_closes_fields)
  show "\<And>sid k. map_of (transports (transport_closes h st)) sid = Some k \<Longrightarrow>
      map_of (transports st) sid = Some k \<and> \<not> closed (heap (transport_closes h st) ! k)"
  proof -
    fix sid k assume a: "map_of (transports (transport_closes h st)) sid = Some k"
    then have b: "map_of (transports st) sid = Some k"
      by (simp add: transport_closes_registry split: if_splits option.splits)
    then have c: "k < length (heap st)" "sessionId (heap st ! k) = Some sid"
      "\<not> closed (heap st ! k)" "sid \<noteq> []" "onclose_set (heap st ! k)"
      using assms unfolding unique_ids_def by blast+
    have "k \<noteq> h"
    proof
      assume "k = h"
      then have "map_of (transports (transport_closes h st)) sid = None"
        using c by (simp add: transport_closes_registry)
      with a show False by simp
    qed
    with c show "map_of (transports st) sid = Some k \<and> \<not> closed (heap (transport_closes h st) ! k)"
      using b by (simp add: transport_closes_fields)
  qed
qed

lemma unique_ids_initializes:
  assumes u: "unique_ids G st" and "sid \<notin> G" "sid \<noteq> []"
  shows "unique_ids (insert sid G) (transport_initializes h sid st)"
proof (cases "h < length (heap st) \<and> connected (heap st ! h) \<and> sessionId (heap st ! h) = None
         \<and> \<not> closed (heap st ! h) \<and> sid \<notin> set Object_prototype_names")
  case False
  then have "transport_initializes h sid st = st"
    by (auto simp: transport_initializes_def)
  moreover have "unique_ids (insert sid G) st"
    using u unfolding unique_ids_def by blast
  ultimately show ?thesis by simp
next
  case True
  let ?st = "transport_initializes h sid st"
  have fresh: "\<And>k. k < length (heap st) \<Longrightarrow> sessionId (heap st ! k) \<noteq> Some sid"
    using u assms(2) unfolding unique_ids_def by blast
  have len: "length (heap ?st) = length (heap st)"
    using True by (simp add: transport_initializes_def onsessioninitialized_def say_def Let_def)
  have ids: "\<And>k. k < length (heap st) \<Longrightarrow>
      sessionId (heap ?st ! k) = (if k = h then Some sid else sessionId (heap st ! k))"
    using True by (simp add: transport_initializes_def onsessioninitialized_def say_def Let_def
        nth_list_update)
  have cls: "\<And>k. k < length (heap st) \<Longrightarrow> closed (heap ?st ! k) = closed (heap st ! k)"
    using True by (simp add: transport_initializes_def onsessioninitialized_def say_def Let_def
        nth_list_update)
  have reg: "map_of (transports ?st) = (map_of (transports st))(sid \<mapsto> h)"
    using True by (simp add: transport_initializes_def onsessioninitialized_def say_def Let_def
        update_conv')
  have dist: "distinct (map fst (transports ?st))"
    using True u by (simp add: transport_initializes_def onsessioninitialized_def say_def Let_def
        distinct_update unique_ids_def)
  have ocs: "\<And>k. k < length (heap st) \<Longrightarrow> onclose_set (heap ?st ! k) = onclose_set (heap st ! k)"
    using True by (simp add: transport_initializes_def onsessioninitialized_def say_def Let_def
        nth_list_update)
  show ?thesis
    unfolding unique_ids_def len
  proof (intro conjI allI impI)
    fix k s assume a: "k < length (heap st) \<and> sessionId (heap ?st ! k) = Some s"
    show "s \<in> insert sid G"
    proof (cases "k = h")
      case True
      with a ids [of k] show ?thesis by simp
    next
      case False
      with a ids [of k] have "k < length (heap st) \<and> sessionId (heap st ! k) = Some s" by simp
      then have "s \<in> G" using u unfolding unique_ids_def by blast
      then show ?thesis by simp
    qed
    show "s \<noteq> []"
    proof (cases "k = h")
      case True
      with a ids [of k] assms(3) show ?thesis by auto
    next
      case False
      with a ids [of k] have "k < length (heap st) \<and> sessionId (heap st ! k) = Some s" by simp
      then show ?thesis using u unfolding unique_ids_def by blast
    qed
  next
    fix k k' s
    assume a: "k < length (heap st) \<and> k' < length (heap st)
        \<and> sessionId (heap ?st ! k) = Some s \<and> sessionId (heap ?st ! k') = Some s"
    show "k = k'"
    proof (cases "s = sid")
      case True
      with a ids [of k] ids [of k'] fresh [of k] fresh [of k'] show ?thesis
        by (simp split: if_splits)
    next
      case False
      have "k \<noteq> h" using a ids [of k] False by auto
      moreover have "k' \<noteq> h" using a ids [of k'] False by auto
      ultimately have "k < length (heap st) \<and> k' < length (heap st)
        \<and> sessionId (heap st ! k) = Some s \<and> sessionId (heap st ! k') = Some s"
        using a ids [of k] ids [of k'] by simp
      then show ?thesis using u unfolding unique_ids_def by blast
    qed
  next
    fix s k assume a: "map_of (transports ?st) s = Some k"
    have "k < length (heap st) \<and> sessionId (heap ?st ! k) = Some s \<and> \<not> closed (heap ?st ! k)"
    proof (cases "s = sid")
      case True
      with a reg have "k = h" by simp
      with True \<open>h < length (heap st) \<and> connected (heap st ! h) \<and> sessionId (heap st ! h) = None
         \<and> \<not> closed (heap st ! h) \<and> sid \<notin> set Object_prototype_names\<close> ids [of h] cls [of h]
      show ?thesis by simp
    next
      case False
      with a reg have b: "map_of (transports st) s = Some k" by simp
      then have c: "k < length (heap st) \<and> sessionId (heap st ! k) = Some s \<and> \<not> closed (heap st ! k)"
        using u unfolding unique_ids_def by blast
      with \<open>h < length (heap st) \<and> connected (heap st ! h) \<and> sessionId (heap st ! h) = None
         \<and> \<not> closed (heap st ! h) \<and> sid \<notin> set Object_prototype_names\<close> have "k \<noteq> h" by auto
      with c ids [of k] cls [of k] show ?thesis by simp
    qed
    then show "k < length (heap st)" "sessionId (heap ?st ! k) = Some s" "\<not> closed (heap ?st ! k)"
      by simp_all
  next
    show "distinct (map fst (transports ?st))" by (rule dist)
  next
    fix k assume "k < length (heap st)"
    then show "onclose_set (heap ?st ! k)"
      using ocs [of k] u unfolding unique_ids_def by simp
  qed
qed

lemma unique_ids_step_other:
  assumes "unique_ids G st" "\<And>h sid. e \<noteq> SessionInitialized h sid"
  shows "unique_ids G (step st e)"
proof (cases e)
  case (POST req)
  from assms(1) show ?thesis unfolding POST
    by (rule unique_ids_frame) (rule request_fields, simp)+
next
  case (GET req)
  from assms(1) show ?thesis unfolding GET
    by (rule unique_ids_frame) (rule request_fields, simp)+
next
  case (DELETE req)
  from assms(1) show ?thesis unfolding DELETE
    by (rule unique_ids_frame) (rule request_fields, simp)+
next
  case (PostRejected b)
  from assms(1) show ?thesis unfolding PostRejected
    by (rule unique_ids_frame) (rule request_fields, simp)+
next
  case (DeleteRejected b)
  from assms(1) show ?thesis unfolding DeleteRejected
    by (rule unique_ids_frame) (rule request_fields, simp)+
next
  case (SessionInitialized h sid)
  with assms(2) [of h sid] show ?thesis by simp
qed (simp_all add: assms(1) unique_ids_connected unique_ids_closes)

lemma unique_ids_run:
  assumes "unique_ids G st" "distinct (generated es)" "set (generated es) \<inter> G = {}"
    "[] \<notin> set (generated es)"
  shows "unique_ids (G \<union> set (generated es)) (run st es)"
  using assms
proof (induction es arbitrary: st G)
  case Nil
  then show ?case by (simp add: run_def)
next
  case (Cons e es)
  show ?case
  proof (cases "\<exists>h sid. e = SessionInitialized h sid")
    case True
    then obtain h sid where e: "e = SessionInitialized h sid" by blast
    from Cons.prems e have "sid \<notin> G" "sid \<noteq> []" by auto
    with Cons.prems(1) have u: "unique_ids (insert sid G) (step st e)"
      unfolding e step.simps by (rule unique_ids_initializes)
    have "unique_ids (insert sid G \<union> set (generated es)) (run (step st e) es)"
      using Cons.prems e by (intro Cons.IH [OF u]) auto
    then show ?thesis using e by (simp add: run_def)
  next
    case False
    then have g: "generated (e # es) = generated es"
      by (cases e) simp_all
    from Cons.prems(1) False have u: "unique_ids G (step st e)"
      by (intro unique_ids_step_other) auto
    have "unique_ids (G \<union> set (generated es)) (run (step st e) es)"
      using Cons.prems g by (intro Cons.IH [OF u]) auto
    then show ?thesis using g by (simp add: run_def)
  qed
qed

lemma unique_ids_init: "unique_ids {} (init_server oauth)"
  by (simp add: unique_ids_def init_server_def)

lemmas run_defs = run_def init_server_def init_req_def call_req_def handshake_def session_S1_def
  closed_S1_def handler_defs mcpPostHandler_connected_def transport_initializes_def
  onsessioninitialized_def transport_closes_def onclose_def new_transport_def
  Object_prototype_names_def

lemma run_handshake:
  "run (init_server False) handshake =
     \<lparr>transports = [], heap = [\<lparr>sessionId = None, onclose_set = True, connected = True, closed = False\<rparr>],
      console = [RequestBody], useOAuth = False\<rparr>"
  by (simp add: run_defs)

lemma run_session_S1:
  "run (init_server False) session_S1 =
     \<lparr>transports = [(''S1'', 0)],
      heap = [\<lparr>sessionId = Some ''S1'', onclose_set = True, connected = True, closed = False\<rparr>],
      console = [RequestBody, SessionInitializedWithID ''S1''], useOAuth = False\<rparr>"
  by (simp add: run_defs)

lemma run_closed_S1:
  "run (init_server False) closed_S1 =
     \<lparr>transports = [],
      heap = [\<lparr>sessionId = Some ''S1'', onclose_set = True, connected = True, closed = True\<rparr>],
      console = [RequestBody, SessionInitializedWithID ''S1'', TerminationRequest ''S1'',
                 TransportClosed ''S1''], useOAuth = False\<rparr>"
  by (simp add: run_defs)

lemma uuid_ids_frame:
  assumes "uuid_ids st" "heap st' = heap st \<or> heap st' = heap st @ [new_transport]"
  shows "uuid_ids st'"
  using assms unfolding uuid_ids_def
  by (auto simp: nth_append new_transport_def less_Suc_eq split: if_splits)

lemma uuid_ids_step: "uuid_ids st \<Longrightarrow> uuid_ids (step st e)"
proof (cases e)
  case (POST req)
  assume "uuid_ids st"
  then show ?thesis unfolding POST by (rule uuid_ids_frame) (rule request_fields, simp)
next
  case (GET req)
  assume "uuid_ids st"
  then show ?thesis unfolding GET by (rule uuid_ids_frame) (rule request_fields, simp)
next
  case (DELETE req)
  assume "uuid_ids st"
  then show ?thesis unfolding DELETE by (rule uuid_ids_frame) (rule request_fields, simp)
next
  case (PostRejected b)
  assume "uuid_ids st"
  then show ?thesis unfolding PostRejected by (rule uuid_ids_frame) (rule request_fields, simp)
next
  case (DeleteRejected b)
  assume "uuid_ids st"
  then show ?thesis unfolding DeleteRejected by (rule uuid_ids_frame) (rule request_fields, simp)
next
  case (PostConnected h)
  assume "uuid_ids st"
  then show ?thesis unfolding PostConnected uuid_ids_def
    by (auto simp: mcpPostHandler_connected_def nth_list_update split: if_splits)
next
  case (SessionInitialized h sid)
  assume "uuid_ids st"
  then show ?thesis unfolding SessionInitialized uuid_ids_def
    by (auto simp: transport_initializes_def onsessioninitialized_def say_def Let_def
        nth_list_update split: if_splits)
next
  case (Closed h)
  assume "uuid_ids st"
  then show ?thesis unfolding Closed uuid_ids_def
    by (auto simp: transport_closes_fields)
qed

lemma uuid_ids_run: "uuid_ids st \<Longrightarrow> uuid_ids (run st es)"
  unfolding run_def by (induction es arbitrary: st) (simp_all add: uuid_ids_step)

lemma uuid_ids_init: "uuid_ids (init_server oauth)"
  by (simp add: uuid_ids_def init_server_def)

text \<open>
  Publication. In every state of every run from the start of the process, a session id
  for which the \<^verbatim>\<open>onsessioninitialized\<close> callback has not fired (its log line is not
  on the console) is not an own property of the transports map; if it is not the name
  of an inherited member either, the lookup of the POST handler finds nothing and GET
  and DELETE answer 400 without touching the state. And whatever transport the map
  holds under an id carries this id, has its \<^verbatim>\<open>onclose\<close> handler and is connected.
\<close>

lemma published_only_by_callback:
  assumes "st = run (init_server oauth) es"
  shows "(SessionInitializedWithID sid \<notin> set (console st) \<longrightarrow>
            map_of (transports st) sid = None
            \<and> (sid \<notin> set Object_prototype_names \<longrightarrow>
                 session_transport st (Some sid) = None)
            \<and> (mcp_session_id req = Some sid \<and> sid \<notin> set Object_prototype_names \<longrightarrow>
                 mcpGetHandler req st = (Responded invalid_session, st)
                 \<and> mcpDeleteHandler req st = (Responded invalid_session, st)))
         \<and> (\<forall>h. map_of (transports st) sid = Some h \<longrightarrow>
               h < length (heap st) \<and> sessionId (heap st ! h) = Some sid
               \<and> onclose_set (heap st ! h) \<and> connected (heap st ! h))"
proof -
  have p: "published st"
    unfolding assms by (rule published_run) (rule published_init)
  have a: "SessionInitializedWithID sid \<notin> set (console st) \<Longrightarrow> map_of (transports st) sid = None"
    using p unfolding published_def by (cases "map_of (transports st) sid") auto
  show ?thesis
  proof (intro conjI impI allI)
    assume n: "SessionInitializedWithID sid \<notin> set (console st)"
    show "map_of (transports st) sid = None" using a n by simp
    assume "sid \<notin> set Object_prototype_names"
    then show "session_transport st (Some sid) = None"
      using a n by (simp add: session_transport_def get_property_def)
  next
    assume n: "SessionInitializedWithID sid \<notin> set (console st)"
      and "mcp_session_id req = Some sid \<and> sid \<notin> set Object_prototype_names"
    then show "mcpGetHandler req st = (Responded invalid_session, st)"
      "mcpDeleteHandler req st = (Responded invalid_session, st)"
      using a by (simp_all add: mcpGetHandler_def mcpDeleteHandler_def get_property_def)
  next
    fix h assume "map_of (transports st) sid = Some h"
    then show "h < length (heap st)" "sessionId (heap st ! h) = Some sid"
      "onclose_set (heap st ! h)" "connected (heap st ! h)"
      using p unfolding published_def by blast+
  qed
qed

text \<open>
  C2 fails on the code for a header that names an inherited member. Before any session
  exists, and so before any callback has fired, the read \<^verbatim>\<open>transports['constructor']\<close>
  does not come back empty: the POST and GET handlers take what it gives for the
  session's transport and throw when they call \<^verbatim>\<open>handleRequest\<close> on it.
\<close>

theorem lookup_inherited_name:
  "console (init_server False) = []
   \<and> map_of (transports (init_server False)) ''constructor'' = None
   \<and> session_transport (init_server False) (Some ''constructor'') = Some Inherited
   \<and> fst (mcpGetHandler (call_req ''constructor'') (init_server False)) = Threw
   \<and> fst (mcpPostHandler (call_req ''constructor'') (init_server False)) = Threw
   \<and> fst (mcpPostHandler_catch False (snd (mcpPostHandler (call_req ''constructor'') (init_server False))))
       = Some internal_error
   \<and> status internal_error = 500"
  by (simp add: handler_defs init_server_def call_req_def Object_prototype_names_def
      mcpPostHandler_catch_def internal_error_def)

text \<open>
  C4. In every state of every run in which the generator hands out distinct, non-empty
  ids (as \<^verbatim>\<open>randomUUID\<close> does): at most one transport carries a given session id; and
  if the transport of a session id has closed, the id is absent from the transports
  map, and a POST, GET or DELETE bearing it is answered with status 400, makes no
  transport, invokes none, and leaves the map and the transport objects as they are.
\<close>

theorem closed_session_never_revived:
  assumes "distinct (generated es)" "[] \<notin> set (generated es)"
    and "st = run (init_server oauth) es"
  shows "(\<forall>h h'. h < length (heap st) \<and> h' < length (heap st)
            \<and> sessionId (heap st ! h) = Some sid \<and> sessionId (heap st ! h') = Some sid
            \<longrightarrow> h = h')
         \<and> (\<forall>h. h < length (heap st) \<and> sessionId (heap st ! h) = Some sid \<and> closed (heap st ! h)
            \<longrightarrow> map_of (transports st) sid = None
              \<and> (mcp_session_id req = Some sid \<longrightarrow>
                   fst (mcpPostHandler req st) = Responded bad_request
                   \<and> transports (snd (mcpPostHandler req st)) = transports st
                   \<and> heap (snd (mcpPostHandler req st)) = heap st
                   \<and> mcpGetHandler req st = (Responded invalid_session, st)
                   \<and> mcpDeleteHandler req st = (Responded invalid_session, st)
                   \<and> status bad_request = 400 \<and> status invalid_session = 400))"
proof -
  have "unique_ids ({} \<union> set (generated es)) (run (init_server oauth) es)"
    using assms(1,2) by (intro unique_ids_run unique_ids_init) simp_all
  then have u: "unique_ids (set (generated es)) st" using assms(3) by simp
  have v: "uuid_ids st"
    unfolding assms(3) by (rule uuid_ids_run) (rule uuid_ids_init)
  show ?thesis
  proof (intro conjI allI impI)
    fix h h' assume "h < length (heap st) \<and> h' < length (heap st)
            \<and> sessionId (heap st ! h) = Some sid \<and> sessionId (heap st ! h') = Some sid"
    then show "h = h'" using u unfolding unique_ids_def by blast
  next
    fix h assume c: "h < length (heap st) \<and> sessionId (heap st ! h) = Some sid \<and> closed (heap st ! h)"
    show n: "map_of (transports st) sid = None"
    proof (cases "map_of (transports st) sid")
      case (Some k)
      then have "k < length (heap st) \<and> sessionId (heap st ! k) = Some sid \<and> \<not> closed (heap st ! k)"
        using u unfolding unique_ids_def by blast
      moreover from this c have "k = h" using u unfolding unique_ids_def by blast
      ultimately show ?thesis using c by simp
    qed simp
    have ne: "sid \<noteq> []" using c u unfolding unique_ids_def by blast
    have ni: "sid \<notin> set Object_prototype_names" using c v unfolding uuid_ids_def by blast
    show "status bad_request = 400" "status invalid_session = 400"
      by (simp_all add: bad_request_def invalid_session_def)
    assume r: "mcp_session_id req = Some sid"
    show "fst (mcpPostHandler req st) = Responded bad_request"
      using r n ne ni by (simp add: handler_defs)
    show "transports (snd (mcpPostHandler req st)) = transports st"
      by (rule post_fields)
    show "heap (snd (mcpPostHandler req st)) = heap st"
      using r n ne ni by (simp add: handler_defs)
    show "mcpGetHandler req st = (Responded invalid_session, st)"
      "mcpDeleteHandler req st = (Responded invalid_session, st)"
      using r n ni by (simp_all add: mcpGetHandler_def mcpDeleteHandler_def get_property_def)
  qed
qed

theorem closed_session_never_revived_witness:
  "distinct (generated closed_S1) \<and> [] \<notin> set (generated closed_S1)
   \<and> sessionId (heap (run (init_server False) closed_S1) ! 0) = Some ''S1''
   \<and> closed (heap (run (init_server False) closed_S1) ! 0)
   \<and> map_of (transports (run (init_server False) closed_S1)) ''S1'' = None
   \<and> fst (mcpPostHandler (call_req ''S1'') (run (init_server False) closed_S1)) = Responded bad_request
   \<and> mcpGetHandler (call_req ''S1'') (run (init_server False) closed_S1)
       = (Responded invalid_session, run (init_server False) closed_S1)
   \<and> mcpDeleteHandler (call_req ''S1'') (run (init_server False) closed_S1)
       = (Responded invalid_session, run (init_server False) closed_S1)"
proof -
  let ?c = "run (init_server False) closed_S1"
  have g: "distinct (generated closed_S1)" "[] \<notin> set (generated closed_S1)"
    by (simp_all add: closed_S1_def session_S1_def handshake_def)
  have h: "0 < length (heap ?c) \<and> sessionId (heap ?c ! 0) = Some ''S1'' \<and> closed (heap ?c ! 0)"
    by (simp add: run_closed_S1)
  have r: "mcp_session_id (call_req ''S1'') = Some ''S1''"
    by (simp add: call_req_def)
  from closed_session_never_revived [where es = closed_S1 and oauth = False and sid = "''S1''"
      and req = "call_req ''S1''", OF g refl] h r
  have "map_of (transports ?c) ''S1'' = None
   \<and> fst (mcpPostHandler (call_req ''S1'') ?c) = Responded bad_request
   \<and> mcpGetHandler (call_req ''S1'') ?c = (Responded invalid_session, ?c)
   \<and> mcpDeleteHandler (call_req ''S1'') ?c = (Responded invalid_session, ?c)"
    by blast
  with g h show ?thesis by blast
qed

text \<open>
  Closing what is not there. The \<^verbatim>\<open>onclose\<close> handler of a transport whose id the map
  gives nothing for returns the state as it is; closing a transport twice is the same as
  closing it once; and a DELETE bearing an id that is neither in the map nor the name of
  an inherited member is answered by the handler itself (status 400), before its
  \<^verbatim>\<open>try\<close> block, with the state unchanged.
\<close>

lemma close_unknown:
  "(h < length (heap st) \<and> sessionId (heap st ! h) = Some sid \<and> get_property st sid = None
      \<longrightarrow> onclose h st = st)
   \<and> transport_closes h (transport_closes h st) = transport_closes h st
   \<and> (mcp_session_id req = Some sid \<and> get_property st sid = None
      \<longrightarrow> mcpDeleteHandler req st = (Responded invalid_session, st) \<and> step st (DELETE req) = st)"
proof (intro conjI impI)
  show "transport_closes h (transport_closes h st) = transport_closes h st"
  proof (cases "h < length (heap st) \<and> \<not> closed (heap st ! h)")
    case True
    then have "closed (heap (transport_closes h st) ! h)"
      by (simp add: transport_closes_fields)
    then show ?thesis by (subst transport_closes_def) simp
  next
    case False
    then show ?thesis by (auto simp: transport_closes_def)
  qed
qed (simp_all add: onclose_def mcpDeleteHandler_def)

text \<open>
  C6 fails on the code for the unknown session id \<open>constructor\<close>. With no session
  registered, a DELETE bearing it passes the guard of the handler (the read finds the
  inherited member), logs the termination request, and throws in the \<^verbatim>\<open>try\<close> block
  when it calls \<^verbatim>\<open>handleRequest\<close>; the \<^verbatim>\<open>catch\<close> block logs the error and answers
  500. Every other unknown id is answered 400 before the \<^verbatim>\<open>try\<close> block.
\<close>

theorem delete_inherited_name:
  "get_property (init_server False) ''S-unknown'' = None
   \<and> mcpDeleteHandler (call_req ''S-unknown'') (init_server False)
       = (Responded invalid_session, init_server False)
   \<and> map_of (transports (init_server False)) ''constructor'' = None
   \<and> get_property (init_server False) ''constructor'' = Some Inherited
   \<and> mcpDeleteHandler (call_req ''constructor'') (init_server False)
       = (Threw, \<lparr>transports = [], heap = [], console = [TerminationRequest ''constructor''],
                  useOAuth = False\<rparr>)
   \<and> mcpDeleteHandler_catch False
         \<lparr>transports = [], heap = [], console = [TerminationRequest ''constructor''],
           useOAuth = False\<rparr>
       = (Some termination_failed,
          \<lparr>transports = [], heap = [],
            console = [TerminationRequest ''constructor'', ErrorHandlingTermination],
            useOAuth = False\<rparr>)
   \<and> status termination_failed = 500
   \<and> step (init_server False) (DELETE (call_req ''constructor''))
       = \<lparr>transports = [], heap = [],
          console = [TerminationRequest ''constructor'', ErrorHandlingTermination],
          useOAuth = False\<rparr>"
  by (simp add: handler_defs init_server_def call_req_def Object_prototype_names_def
      mcpDeleteHandler_catch_def termination_failed_def)

section \<open>Properties of the shutdown\<close>



























section \<open>Replay after a stream reopen\<close>

lemma received_snoc: "received (ps @ [p]) = received ps @ [(next_cursor (received ps), p)]"
  by (simp add: received_def append_event_def)

lemma received_shape:
  "length (received ps) = length ps \<and> next_cursor (received ps) = Suc (length ps)
   \<and> map fst (received ps) = [1..<Suc (length ps)] \<and> map snd (received ps) = ps"
proof (induction ps rule: rev_induct)
  case Nil
  then show ?case by (simp add: received_def next_cursor_def)
next
  case (snoc p ps)
  have "[1..<Suc (Suc (length ps))] = [1..<Suc (length ps)] @ [Suc (length ps)]"
    by (rule upt_Suc_append) simp
  with snoc show ?case
    by (simp add: received_snoc next_cursor_def del: upt_Suc)
qed

lemma received_cursors: "map fst (received ps) = [1..<Suc (length ps)]"
  using received_shape [of ps] by blast

lemma received_length: "length (received ps) = length ps"
  using received_shape [of ps] by blast

lemma received_next: "next_cursor (received ps) = Suc (length ps)"
  using received_shape [of ps] by blast

lemma filter_after_cursor:
  assumes "map fst l = [1..<Suc (length l)]"
  shows "filter (\<lambda>(c, p). c > k) l = drop k l"
  using assms
proof (induction l rule: rev_induct)
  case Nil
  then show ?case by simp
next
  case (snoc x l)
  have "[1..<Suc (Suc (length l))] = [1..<Suc (length l)] @ [Suc (length l)]"
    by (rule upt_Suc_append) simp
  with snoc.prems have a: "map fst l = [1..<Suc (length l)]" and b: "fst x = Suc (length l)"
    by (simp_all del: upt_Suc)
  show ?case using snoc.IH [OF a] b by (cases x) auto
qed

lemma replay_step_invariant:
  assumes "log r = received qs" "k \<le> length qs"
    "delivered r @ backlog r @ queued r = drop k (log r)"
  shows "log (replay_step r a) = received (qs @ appended [a])
         \<and> delivered (replay_step r a) @ backlog (replay_step r a) @ queued (replay_step r a)
             = drop k (log (replay_step r a))"
proof (cases a)
  case (Append p)
  then show ?thesis using assms
    by (simp add: appended_def append_event_def received_snoc received_length)
next
  case Deliver
  then show ?thesis using assms
    by (cases "backlog r"; cases "queued r") (simp_all add: appended_def)
qed

lemma appended_append: "appended (xs @ ys) = appended xs @ appended ys"
  by (simp add: appended_def)

lemma replay_run_invariant:
  assumes "log r = received qs" "k \<le> length qs"
    "delivered r @ backlog r @ queued r = drop k (log r)"
  shows "log (replay_run r sched) = received (qs @ appended sched)
         \<and> delivered (replay_run r sched) @ backlog (replay_run r sched) @ queued (replay_run r sched)
             = drop k (log (replay_run r sched))"
  using assms
proof (induction sched arbitrary: r qs)
  case Nil
  then show ?case by (simp add: replay_run_def appended_def)
next
  case (Cons a sched)
  have s: "log (replay_step r a) = received (qs @ appended [a])"
    "delivered (replay_step r a) @ backlog (replay_step r a) @ queued (replay_step r a)
             = drop k (log (replay_step r a))"
    using replay_step_invariant [OF Cons.prems] by simp_all
  have "k \<le> length (qs @ appended [a])" using Cons.prems(2) by simp
  from Cons.IH [OF s(1) this s(2)]
  show ?case using appended_append [of "[a]" sched] by (simp add: replay_run_def)
qed

lemma replay_drain:
  "delivered (replay_run r (replicate (length (backlog r @ queued r)) Deliver))
     = delivered r @ backlog r @ queued r
   \<and> backlog (replay_run r (replicate (length (backlog r @ queued r)) Deliver)) = []
   \<and> queued (replay_run r (replicate (length (backlog r @ queued r)) Deliver)) = []
   \<and> log (replay_run r (replicate (length (backlog r @ queued r)) Deliver)) = log r"
proof (induction "length (backlog r @ queued r)" arbitrary: r)
  case 0
  then show ?case by (simp add: replay_run_def)
next
  case (Suc n)
  have "length (backlog (replay_step r Deliver) @ queued (replay_step r Deliver)) = n"
    using Suc.hyps(2) by (auto split: list.splits)
  from Suc.hyps(1) [OF this [symmetric]] this Suc.hyps(2) [symmetric]
  show ?case
    by (cases "backlog r"; cases "queued r") (simp_all add: replay_run_def)
qed

text \<open>
  C1 (on the event store modelled from the spec). Let the stream of a session have
  received events with cursors 1..n, and let a GET carry the session's id and a
  last-event-id header that reads as k, k at most n. Then the handler hands the request
  to the session's transport and the replay starts with the events k+1..n as backlog;
  with no append in between, n - k deliveries deliver exactly these, in order. Under
  every schedule of appends and deliveries, what has been delivered, followed by what
  is pending, is exactly the events after k of the log as it then is (the original ones
  and the appended ones, in cursor order), the delivered cursors are k+1, k+2, ...
  without gap or repetition, and delivering what is pending delivers all of them.
\<close>

theorem replay_correct:
  assumes "mcp_session_id req = Some sid" "sid \<noteq> []" "map_of (transports st) sid = Some h"
    and "last_event_id req = Some l" "l \<noteq> []" "cursor_of l = k"
    and "logs h = received ps" "k \<le> length ps"
  shows "\<exists>r0. stream_reopen cursor_of logs req st = Some r0
           \<and> delivered r0 = [] \<and> backlog r0 = drop k (received ps)
           \<and> map fst (drop k (received ps)) = [Suc k..<Suc (length ps)]
           \<and> delivered (replay_run r0 (replicate (length ps - k) Deliver)) = drop k (received ps)
           \<and> log (replay_run r0 sched) = received (ps @ appended sched)
           \<and> delivered (replay_run r0 sched) @ backlog (replay_run r0 sched)
                 @ queued (replay_run r0 sched)
               = drop k (received (ps @ appended sched))
           \<and> map fst (delivered (replay_run r0 sched))
               = [Suc k..<Suc k + length (delivered (replay_run r0 sched))]
           \<and> delivered (replay_run r0
                 (sched @ replicate (length (backlog (replay_run r0 sched)
                                              @ queued (replay_run r0 sched))) Deliver))
               = drop k (received (ps @ appended sched))"
proof -
  let ?r0 = "replayFrom (received ps) k"
  have g: "fst (mcpGetHandler req st) = HandleRequest h"
    using assms(1-3) by (simp add: mcpGetHandler_def get_property_def Let_def)
  have r: "stream_reopen cursor_of logs req st = Some ?r0"
    using g assms(4-7) by (simp add: stream_reopen_def)
  have f: "backlog ?r0 = drop k (received ps)"
    by (simp add: replayFrom_def filter_after_cursor received_cursors received_length)
  have i0: "log ?r0 = received ps" "delivered ?r0 @ backlog ?r0 @ queued ?r0 = drop k (log ?r0)"
    using f by (simp_all add: replayFrom_def)
  have cur: "\<And>qs. map fst (drop k (received qs)) = [Suc k..<Suc (length qs)]"
    by (simp add: drop_map [symmetric] received_cursors drop_upt del: upt_Suc)
  have inv: "\<And>s. log (replay_run ?r0 s) = received (ps @ appended s)
         \<and> delivered (replay_run ?r0 s) @ backlog (replay_run ?r0 s) @ queued (replay_run ?r0 s)
             = drop k (log (replay_run ?r0 s))"
    by (rule replay_run_invariant [OF i0(1) assms(8) i0(2)])
  have d0: "delivered (replay_run ?r0 (replicate (length ps - k) Deliver)) = drop k (received ps)"
    using replay_drain [of ?r0] f by (simp add: replayFrom_def received_length)
  have pre: "map fst (delivered (replay_run ?r0 sched))
               = [Suc k..<Suc k + length (delivered (replay_run ?r0 sched))]"
  proof -
    let ?d = "delivered (replay_run ?r0 sched)"
    let ?rest = "backlog (replay_run ?r0 sched) @ queued (replay_run ?r0 sched)"
    have "?d @ ?rest = drop k (received (ps @ appended sched))" using inv [of sched] by simp
    then have "map fst ?d @ map fst ?rest = [Suc k..<Suc (length (ps @ appended sched))]"
      using cur [of "ps @ appended sched"] by (metis map_append)
    then have "map fst ?d = take (length ?d) [Suc k..<Suc (length (ps @ appended sched))]"
      by (metis append_eq_conv_conj length_map)
    moreover have "length ?d \<le> length [Suc k..<Suc (length (ps @ appended sched))]"
      using \<open>map fst ?d @ map fst ?rest = [Suc k..<Suc (length (ps @ appended sched))]\<close>
      by (metis le_add1 length_append length_map)
    then have "Suc k + length ?d \<le> Suc (length (ps @ appended sched))"
      using assms(8) by (simp del: upt_Suc)
    from take_upt [OF this] have "take (length ?d) [Suc k..<Suc (length (ps @ appended sched))]
        = [Suc k..<Suc k + length ?d]" .
    ultimately show ?thesis by simp
  qed
  have fin: "delivered (replay_run ?r0
                 (sched @ replicate (length (backlog (replay_run ?r0 sched)
                                              @ queued (replay_run ?r0 sched))) Deliver))
               = drop k (received (ps @ appended sched))"
    using replay_drain [of "replay_run ?r0 sched"] inv [of sched]
    by (simp add: replay_run_def)
  show ?thesis
    using r f cur [of ps] d0 inv [of sched] pre fin
    by (intro exI [of _ ?r0]) (simp add: replayFrom_def del: upt_Suc)
qed

lemma received_five:
  "received [''e1'', ''e2'', ''e3'', ''e4'', ''e5'']
     = [(1, ''e1''), (2, ''e2''), (3, ''e3''), (4, ''e4''), (5, ''e5'')]"
  "received ([''e1'', ''e2'', ''e3'', ''e4'', ''e5''] @ [''e6''])
     = [(1, ''e1''), (2, ''e2''), (3, ''e3''), (4, ''e4''), (5, ''e5''), (6, ''e6'')]"
  by (simp_all add: received_def append_event_def next_cursor_def)

theorem replay_correct_witness:
  "mcp_session_id reopen_req = Some ''S1''
   \<and> map_of (transports (run (init_server False) session_S1)) ''S1'' = Some 0
   \<and> last_event_id reopen_req = Some ''3'' \<and> decimal_cursor ''3'' = 3
   \<and> five_events 0 = [(1, ''e1''), (2, ''e2''), (3, ''e3''), (4, ''e4''), (5, ''e5'')]
   \<and> (\<exists>r0. stream_reopen decimal_cursor five_events reopen_req (run (init_server False) session_S1)
               = Some r0
         \<and> delivered (replay_run r0 [Deliver, Deliver]) = [(4, ''e4''), (5, ''e5'')]
         \<and> delivered (replay_run r0 [Deliver, Append ''e6''])
              @ backlog (replay_run r0 [Deliver, Append ''e6''])
              @ queued (replay_run r0 [Deliver, Append ''e6''])
             = [(4, ''e4''), (5, ''e5''), (6, ''e6'')])"
proof -
  let ?st = "run (init_server False) session_S1"
  let ?ps = "[''e1'', ''e2'', ''e3'', ''e4'', ''e5'']"
  have a: "mcp_session_id reopen_req = Some ''S1''" "''S1'' \<noteq> []"
    "map_of (transports ?st) ''S1'' = Some 0"
    "last_event_id reopen_req = Some ''3''" "''3'' \<noteq> []" "decimal_cursor ''3'' = 3"
    "five_events 0 = received ?ps" "3 \<le> length ?ps"
    by (simp_all add: reopen_req_def run_session_S1 decimal_cursor_def five_events_def)
  from replay_correct [where req = reopen_req and sid = "''S1''" and st = ?st and h = 0
      and l = "''3''" and cursor_of = decimal_cursor and k = 3 and logs = five_events
      and ps = ?ps and sched = "[Deliver, Append ''e6'']", OF a]
  obtain r0 where r: "stream_reopen decimal_cursor five_events reopen_req ?st = Some r0"
    "delivered (replay_run r0 (replicate (length ?ps - 3) Deliver)) = drop 3 (received ?ps)"
    "delivered (replay_run r0 [Deliver, Append ''e6''])
              @ backlog (replay_run r0 [Deliver, Append ''e6''])
              @ queued (replay_run r0 [Deliver, Append ''e6''])
       = drop 3 (received (?ps @ appended [Deliver, Append ''e6'']))"
    by blast
  have n: "replicate (length ?ps - 3) Deliver = [Deliver, Deliver]"
    by (simp add: numeral_eq_Suc)
  have e: "appended [Deliver, Append ''e6''] = [''e6'']"
    by (simp add: appended_def)
  have "stream_reopen decimal_cursor five_events reopen_req ?st = Some r0
         \<and> delivered (replay_run r0 [Deliver, Deliver]) = [(4, ''e4''), (5, ''e5'')]
         \<and> delivered (replay_run r0 [Deliver, Append ''e6''])
              @ backlog (replay_run r0 [Deliver, Append ''e6''])
              @ queued (replay_run r0 [Deliver, Append ''e6''])
             = [(4, ''e4''), (5, ''e5''), (6, ''e6'')]"
    using r unfolding n e received_five by simp
  then show ?thesis using a(1,3,4,6) a(7) [unfolded received_five] by blast
qed

end
